theory Spec2Isabelle
  imports Complex_Main "HOL-Library.Log_Nat"
begin

section \<open>JavaScript values and the operations the stream client applies to them\<close>

text \<open>
  A frame of the push stream is text; \<^verbatim>\<open>JSON.parse\<close> turns it into a value or throws
  a SyntaxError. The values are modelled as they come out of the parser, together with
  \<^verbatim>\<open>undefined\<close>, which property reads produce. Numbers are rationals (every finite
  double is one); an object is its list of own properties, the first entry of a key
  being the one that is read.
\<close>

datatype js =
    JUndefined
  | JNull
  | JBool bool
  | JNum rat
  | JStr string
  | JArr "js list"
  | JObj "(string \<times> js) list"

datatype js_error = SyntaxError | TypeError

text \<open>
  \<^verbatim>\<open>v.type\<close> and \<^verbatim>\<open>v.events\<close>: reading a property of \<^verbatim>\<open>undefined\<close> or \<^verbatim>\<open>null\<close> throws
  a TypeError; an object gives its own property or \<^verbatim>\<open>undefined\<close>; arrays, strings,
  numbers and booleans have no property of either name.
\<close>

fun get_prop :: "js \<Rightarrow> string \<Rightarrow> js_error + js" where
  "get_prop JUndefined k = Inl TypeError"
| "get_prop JNull k = Inl TypeError"
| "get_prop (JObj kvs) k = Inr (case map_of kvs k of None \<Rightarrow> JUndefined | Some v \<Rightarrow> v)"
| "get_prop v k = Inr JUndefined"

text \<open>
  \<^verbatim>\<open>xs.slice(0, n)\<close> on a sequence: a negative \<^verbatim>\<open>n\<close> counts from the end, and the
  end point is clamped to the sequence.
\<close>

definition slice0 :: "'a list \<Rightarrow> int \<Rightarrow> 'a list" where
  "slice0 xs n = take (nat (if n < 0 then int (length xs) + n else n)) xs"

text \<open>
  \<^verbatim>\<open>v.slice(0, n)\<close> as a method call: arrays and strings have the method; on
  \<^verbatim>\<open>undefined\<close> and \<^verbatim>\<open>null\<close> the property read throws, and on every other value
  \<^verbatim>\<open>v.slice\<close> is not a function, so the call throws.
\<close>

fun js_slice0 :: "js \<Rightarrow> int \<Rightarrow> js_error + js" where
  "js_slice0 (JArr xs) n = Inr (JArr (slice0 xs n))"
| "js_slice0 (JStr s) n = Inr (JStr (slice0 s n))"
| "js_slice0 v n = Inl TypeError"

text \<open>\<^verbatim>\<open>v[0]\<close>: the first element or character, \<^verbatim>\<open>undefined\<close> when there is none.\<close>

fun js_index0 :: "js \<Rightarrow> js_error + js" where
  "js_index0 JUndefined = Inl TypeError"
| "js_index0 JNull = Inl TypeError"
| "js_index0 (JArr xs) = Inr (case xs of [] \<Rightarrow> JUndefined | x # _ \<Rightarrow> x)"
| "js_index0 (JStr s) = Inr (case s of [] \<Rightarrow> JUndefined | c # _ \<Rightarrow> JStr [c])"
| "js_index0 (JObj kvs) = Inr (case map_of kvs ''0'' of None \<Rightarrow> JUndefined | Some v \<Rightarrow> v)"
| "js_index0 v = Inr JUndefined"

fun truthy :: "js \<Rightarrow> bool" where
  "truthy JUndefined = False"
| "truthy JNull = False"
| "truthy (JBool b) = b"
| "truthy (JNum r) = (r \<noteq> 0)"
| "truthy (JStr s) = (s \<noteq> [])"
| "truthy (JArr xs) = True"
| "truthy (JObj kvs) = True"

text \<open>\<^verbatim>\<open>a || b\<close>\<close>

definition js_or :: "js \<Rightarrow> js \<Rightarrow> js" where
  "js_or a b = (if truthy a then a else b)"

text \<open>
  \<^verbatim>\<open>...v\<close> inside an array literal: arrays and strings are iterable, nothing else
  that the parser produces is.
\<close>

fun js_spread :: "js \<Rightarrow> js_error + js list" where
  "js_spread (JArr xs) = Inr xs"
| "js_spread (JStr s) = Inr (map (\<lambda>c. JStr [c]) s)"
| "js_spread v = Inl TypeError"

text \<open>\<^verbatim>\<open>v.length\<close> of a window held in the state.\<close>

fun js_length :: "js \<Rightarrow> nat" where
  "js_length (JArr xs) = length xs"
| "js_length (JStr s) = length s"
| "js_length v = 0"

section \<open>The stream client: \<^verbatim>\<open>useEventStream\<close>\<close>

datatype ready_state = CONNECTING | OPEN | CLOSING | CLOSED

text \<open>
  The hook's four pieces of React state and its two refs, followed by the part of the
  platform the hook acts on: every WebSocket constructed so far with its
  \<^verbatim>\<open>readyState\<close> (\<^verbatim>\<open>wsRef\<close> holds an index into this list), and the timeouts that are
  pending (\<^verbatim>\<open>reconnectTimer\<close> holds the id \<^verbatim>\<open>setTimeout\<close> returned). Each pending timeout
  calls \<^verbatim>\<open>connect\<close>; each socket carries the four handlers \<^verbatim>\<open>connect\<close> attaches.
\<close>

record client =
  events :: js
  feed :: js
  connected :: bool
  latestEvent :: js
  wsRef :: "nat option"
  reconnectTimer :: "nat option"
  sockets :: "ready_state list"
  timers :: "nat list"
  timer_seq :: nat

definition initial_client :: client where
  "initial_client =
     \<lparr>events = JArr [], feed = JArr [], connected = False, latestEvent = JNull,
      wsRef = None, reconnectTimer = None, sockets = [], timers = [], timer_seq = 0\<rparr>"

definition default_maxEvents :: int where
  "default_maxEvents = 200"

text \<open>
  The functional updater \<^verbatim>\<open>(prev) => [...newEvts, ...prev].slice(0, n)\<close>, which React
  applies to the state it holds when it next renders.
\<close>

definition prepend_updater :: "js \<Rightarrow> int \<Rightarrow> js \<Rightarrow> js_error + js" where
  "prepend_updater newEvts n prev =
     (case js_spread newEvts of
        Inl err \<Rightarrow> Inl err
      | Inr batch \<Rightarrow>
          (case js_spread prev of
             Inl err \<Rightarrow> Inl err
           | Inr old \<Rightarrow> Inr (JArr (slice0 (batch @ old) n))))"

text \<open>
  What handling one frame comes to. \<open>Handled c None\<close>: the handler ran to its end.
  \<open>Handled c (Some err)\<close>: the \<^verbatim>\<open>try\<close> block threw \<open>err\<close>, the \<^verbatim>\<open>catch\<close> block logged it
  and the handler returned; \<open>c\<close> holds the state changes made before the throw.
  \<open>RenderError err\<close>: the handler returned, and an updater it queued threw when React
  applied it, outside the handler's \<^verbatim>\<open>try\<close>.
\<close>

datatype handled = Handled client "js_error option" | RenderError js_error

text \<open>
  \<^verbatim>\<open>ws.onmessage\<close>. \<open>JSON_parse\<close> is the platform's parser: \<open>None\<close> where it throws.
\<close>

definition ws_onmessage :: "(string \<Rightarrow> js option) \<Rightarrow> int \<Rightarrow> string \<Rightarrow> client \<Rightarrow> handled" where
  "ws_onmessage JSON_parse maxEvents data c =
     (case JSON_parse data of
        None \<Rightarrow> Handled c (Some SyntaxError)
      | Some msg \<Rightarrow>
          (case get_prop msg ''type'' of
             Inl err \<Rightarrow> Handled c (Some err)
           | Inr ty \<Rightarrow>
               if ty = JStr ''history'' then
                 (case get_prop msg ''events'' of
                    Inl err \<Rightarrow> Handled c (Some err)
                  | Inr evs \<Rightarrow>
                      (case js_slice0 evs maxEvents of
                         Inl err \<Rightarrow> Handled c (Some err)
                       | Inr window \<Rightarrow>
                           (case js_slice0 evs 20 of
                              Inl err \<Rightarrow> Handled (c\<lparr>events := window\<rparr>) (Some err)
                            | Inr recent \<Rightarrow>
                                Handled (c\<lparr>events := window, feed := recent\<rparr>) None)))
               else if ty = JStr ''new_events'' then
                 (case get_prop msg ''events'' of
                    Inl err \<Rightarrow> Handled c (Some err)
                  | Inr newEvts \<Rightarrow>
                      (case js_index0 newEvts of
                         Inl err \<Rightarrow> Handled c (Some err)
                       | Inr first \<Rightarrow>
                           (case prepend_updater newEvts maxEvents (events c) of
                              Inl err \<Rightarrow> RenderError err
                            | Inr window \<Rightarrow>
                                (case prepend_updater newEvts 20 (feed c) of
                                   Inl err \<Rightarrow> RenderError err
                                 | Inr recent \<Rightarrow>
                                     Handled (c\<lparr>latestEvent := js_or first JNull,
                                                events := window, feed := recent\<rparr>) None))))
               else Handled c None))"


subsection \<open>The connection: \<^verbatim>\<open>connect\<close>, the socket's handlers, and the effect's cleanup\<close>

text \<open>\<^verbatim>\<open>wsRef.current?.readyState === WebSocket.OPEN\<close>\<close>

definition wsRef_is_open :: "client \<Rightarrow> bool" where
  "wsRef_is_open c =
     (case wsRef c of
        None \<Rightarrow> False
      | Some i \<Rightarrow> i < length (sockets c) \<and> sockets c ! i = OPEN)"

text \<open>\<^verbatim>\<open>reconnectTimer.current = setTimeout(connect, 3000)\<close>\<close>

definition schedule_reconnect :: "client \<Rightarrow> client" where
  "schedule_reconnect c =
     c\<lparr>reconnectTimer := Some (timer_seq c),
       timers := timers c @ [timer_seq c],
       timer_seq := Suc (timer_seq c)\<rparr>"

text \<open>
  \<^verbatim>\<open>clearTimeout(reconnectTimer.current)\<close>: cancels the timeout whose id the ref holds,
  if it is still pending; nothing happens otherwise.
\<close>

definition clear_reconnect :: "client \<Rightarrow> client" where
  "clear_reconnect c =
     (case reconnectTimer c of
        None \<Rightarrow> c
      | Some t \<Rightarrow> c\<lparr>timers := removeAll t (timers c)\<rparr>)"

text \<open>
  \<^verbatim>\<open>ws.close()\<close> on socket \<open>i\<close>: a socket that is connecting or open starts closing;
  on a closing or closed socket the call does nothing.
\<close>

definition ws_close :: "nat \<Rightarrow> client \<Rightarrow> client" where
  "ws_close i c =
     (if i < length (sockets c) \<and> (sockets c ! i = CONNECTING \<or> sockets c ! i = OPEN)
      then c\<lparr>sockets := (sockets c)[i := CLOSING]\<rparr>
      else c)"

text \<open>
  \<^verbatim>\<open>connect\<close>. \<open>ctor_ok\<close> says whether \<^verbatim>\<open>new WebSocket(WS_URL)\<close> returns; where it
  throws, the \<^verbatim>\<open>catch\<close> block schedules the next attempt.
\<close>

definition connect :: "bool \<Rightarrow> client \<Rightarrow> client" where
  "connect ctor_ok c =
     (if wsRef_is_open c then c
      else if ctor_ok then
        c\<lparr>sockets := sockets c @ [CONNECTING], wsRef := Some (length (sockets c))\<rparr>
      else schedule_reconnect c)"

definition ws_onopen :: "client \<Rightarrow> client" where
  "ws_onopen c = clear_reconnect (c\<lparr>connected := True\<rparr>)"

definition ws_onclose :: "client \<Rightarrow> client" where
  "ws_onclose c = schedule_reconnect (c\<lparr>connected := False\<rparr>)"

text \<open>\<^verbatim>\<open>ws.onerror\<close> of socket \<open>i\<close>, the socket its closure holds.\<close>

definition ws_onerror :: "nat \<Rightarrow> client \<Rightarrow> client" where
  "ws_onerror i c = ws_close i c"

text \<open>The function the effect returns, run when the consuming component is torn down.\<close>

definition cleanup :: "client \<Rightarrow> client" where
  "cleanup c =
     (let c1 = clear_reconnect c
      in case wsRef c1 of None \<Rightarrow> c1 | Some i \<Rightarrow> ws_close i c1)"

text \<open>
  What the platform does to the client. \<open>Mount\<close> runs the effect, which calls
  \<^verbatim>\<open>connect\<close>. A connecting socket may open. A socket that is not yet closed may have
  its connection closed: cleanly (\<open>SocketClosed\<close>, the close event alone) or by failure
  (\<open>SocketFailed\<close>, the error event and then the close event); the socket is already
  \<^verbatim>\<open>CLOSED\<close> when either event is dispatched. A pending timeout may fire, calling
  \<^verbatim>\<open>connect\<close>. \<open>Unmount\<close> runs the cleanup. \<open>None\<close>: the platform cannot produce the
  event in this state.
\<close>

datatype browser_event =
    Mount
  | SocketOpened nat
  | SocketClosed nat
  | SocketFailed nat
  | TimerFired nat
  | Unmount

fun platform_step :: "bool \<Rightarrow> browser_event \<Rightarrow> client \<Rightarrow> client option" where
  "platform_step ctor_ok Mount c = Some (connect ctor_ok c)"
| "platform_step ctor_ok (SocketOpened i) c =
     (if i < length (sockets c) \<and> sockets c ! i = CONNECTING
      then Some (ws_onopen (c\<lparr>sockets := (sockets c)[i := OPEN]\<rparr>))
      else None)"
| "platform_step ctor_ok (SocketClosed i) c =
     (if i < length (sockets c) \<and> sockets c ! i \<noteq> CLOSED
      then Some (ws_onclose (c\<lparr>sockets := (sockets c)[i := CLOSED]\<rparr>))
      else None)"
| "platform_step ctor_ok (SocketFailed i) c =
     (if i < length (sockets c) \<and> sockets c ! i \<noteq> CLOSED
      then Some (ws_onclose (ws_onerror i (c\<lparr>sockets := (sockets c)[i := CLOSED]\<rparr>)))
      else None)"
| "platform_step ctor_ok (TimerFired t) c =
     (if t \<in> set (timers c)
      then Some (connect ctor_ok (c\<lparr>timers := removeAll t (timers c)\<rparr>))
      else None)"
| "platform_step ctor_ok Unmount c = Some (cleanup c)"

fun platform_run :: "bool \<Rightarrow> browser_event list \<Rightarrow> client \<Rightarrow> client option" where
  "platform_run ctor_ok [] c = Some c"
| "platform_run ctor_ok (e # es) c =
     (case platform_step ctor_ok e c of
        None \<Rightarrow> None
      | Some c' \<Rightarrow> platform_run ctor_ok es c')"

subsection \<open>Message sequences\<close>

text \<open>
  A message whose \<^verbatim>\<open>type\<close> is the string \<open>ty\<close> and whose \<^verbatim>\<open>events\<close> is the array
  \<open>batch\<close>: a snapshot message for \<^verbatim>\<open>"history"\<close>, a delta message for
  \<^verbatim>\<open>"new_events"\<close>.
\<close>

definition carries :: "js \<Rightarrow> string \<Rightarrow> js list \<Rightarrow> bool" where
  "carries msg ty batch \<longleftrightarrow>
     get_prop msg ''type'' = Inr (JStr ty) \<and> get_prop msg ''events'' = Inr (JArr batch)"

text \<open>
  The frames of one connection reach the handler in the order they were received. A
  render error ends the component, so no later frame is handled.
\<close>

fun deliver_frames :: "(string \<Rightarrow> js option) \<Rightarrow> int \<Rightarrow> string list \<Rightarrow> client \<Rightarrow> js_error + client" where
  "deliver_frames JSON_parse maxEvents [] c = Inr c"
| "deliver_frames JSON_parse maxEvents (data # rest) c =
     (case ws_onmessage JSON_parse maxEvents data c of
        RenderError err \<Rightarrow> Inl err
      | Handled c' logged \<Rightarrow> deliver_frames JSON_parse maxEvents rest c')"

text \<open>
  The arrival order as the specification words it: the events seen, newest first. A
  snapshot replaces what was seen by its batch, in batch order; a delta puts its batch
  in front of what was seen.
\<close>

datatype stream_msg = Snapshot "js list" | Delta "js list"

fun arrival_order :: "js list \<Rightarrow> stream_msg list \<Rightarrow> js list" where
  "arrival_order seen [] = seen"
| "arrival_order seen (Snapshot batch # rest) = arrival_order batch rest"
| "arrival_order seen (Delta batch # rest) = arrival_order (batch @ seen) rest"

text \<open>The frame \<open>data\<close> parses to the given snapshot or delta message.\<close>

fun frame_of :: "(string \<Rightarrow> js option) \<Rightarrow> string \<Rightarrow> stream_msg \<Rightarrow> bool" where
  "frame_of JSON_parse data (Snapshot batch) =
     (case JSON_parse data of None \<Rightarrow> False | Some msg \<Rightarrow> carries msg ''history'' batch)"
| "frame_of JSON_parse data (Delta batch) =
     (case JSON_parse data of None \<Rightarrow> False | Some msg \<Rightarrow> carries msg ''new_events'' batch)"

section \<open>The view controller: \<^verbatim>\<open>App\<close>\<close>

text \<open>\<^verbatim>\<open>const events = wsEvents.length > 0 ? wsEvents : mockEvents\<close>\<close>

definition App_events :: "client \<Rightarrow> js \<Rightarrow> js" where
  "App_events c mockEvents = (if 0 < js_length (events c) then events c else mockEvents)"

section \<open>The event configuration: \<^verbatim>\<open>eventConfig\<close> and its use by the components\<close>

text \<open>
  The six entries. Icons are written by their code points, and the dash in the last
  description as a hyphen.
\<close>

record event_config =
  icon :: string
  label :: string
  color :: string
  bg :: string
  border :: string
  description :: string

definition cfg_deforestation :: event_config where
  "cfg_deforestation =
     \<lparr>icon = ''U+1F333'', label = ''Deforestation'', color = ''#22c55e'',
      bg = ''rgba(34,197,94,0.12)'', border = ''#166534'',
      description = ''Sudden NDVI drop below forest baseline''\<rparr>"

definition cfg_flood :: event_config where
  "cfg_flood =
     \<lparr>icon = ''U+1F30A'', label = ''Flood'', color = ''#38bdf8'',
      bg = ''rgba(56,189,248,0.12)'', border = ''#0369a1'',
      description = ''NDWI surge above seasonal water baseline''\<rparr>"

definition cfg_crop_stress :: event_config where
  "cfg_crop_stress =
     \<lparr>icon = ''U+1F33E'', label = ''Crop Stress'', color = ''#fbbf24'',
      bg = ''rgba(251,191,36,0.12)'', border = ''#92400e'',
      description = ''Moderate NDVI decline in agricultural zones''\<rparr>"

definition cfg_construction :: event_config where
  "cfg_construction =
     \<lparr>icon = ''U+1F3D7 U+FE0F'', label = ''Construction'', color = ''#a78bfa'',
      bg = ''rgba(167,139,250,0.12)'', border = ''#4c1d95'',
      description = ''NDVI drop + high SWIR reflectance''\<rparr>"

definition cfg_fire :: event_config where
  "cfg_fire =
     \<lparr>icon = ''U+1F525'', label = ''Fire'', color = ''#fb923c'',
      bg = ''rgba(251,146,60,0.12)'', border = ''#7c2d12'',
      description = ''SWIR spike + near-zero NDVI''\<rparr>"

definition cfg_drought :: event_config where
  "cfg_drought =
     \<lparr>icon = ''U+1F3DC U+FE0F'', label = ''Drought'', color = ''#f59e0b'',
      bg = ''rgba(245,158,11,0.12)'', border = ''#78350f'',
      description = ''Negative NDWI delta - water body shrinkage''\<rparr>"

text \<open>The own properties of the object literal \<^verbatim>\<open>EVENT_CONFIG\<close>.\<close>

definition EVENT_CONFIG :: "(string \<times> event_config) list" where
  "EVENT_CONFIG =
     [(''deforestation'', cfg_deforestation),
      (''flood'', cfg_flood),
      (''crop_stress'', cfg_crop_stress),
      (''construction'', cfg_construction),
      (''fire'', cfg_fire),
      (''drought'', cfg_drought)]"

text \<open>
  \<^verbatim>\<open>EVENT_CONFIG\<close> is an object literal, so its prototype is \<^verbatim>\<open>Object.prototype\<close>, and a
  property read that finds no own property goes on to the prototype. These are the
  names \<^verbatim>\<open>Object.prototype\<close> defines.
\<close>

definition Object_prototype_names :: "string list" where
  "Object_prototype_names =
     [''constructor'', ''__proto__'', ''hasOwnProperty'', ''isPrototypeOf'',
      ''propertyIsEnumerable'', ''toLocaleString'', ''toString'', ''valueOf'',
      ''__defineGetter__'', ''__defineSetter__'', ''__lookupGetter__'', ''__lookupSetter__'']"

text \<open>
  What a read \<^verbatim>\<open>EVENT_CONFIG[key]\<close> yields when it is not \<^verbatim>\<open>undefined\<close>: one of the six
  entries, or the member of \<^verbatim>\<open>Object.prototype\<close> of that name (a function, or for
  \<^verbatim>\<open>__proto__\<close> the prototype object itself). Both kinds are truthy.
\<close>

datatype cfg_value = Entry event_config | Inherited string

text \<open>\<^verbatim>\<open>EVENT_CONFIG[key]\<close>; \<open>None\<close> is \<^verbatim>\<open>undefined\<close>.\<close>

definition EVENT_CONFIG_get :: "string \<Rightarrow> cfg_value option" where
  "EVENT_CONFIG_get key =
     (case map_of EVENT_CONFIG key of
        Some entry \<Rightarrow> Some (Entry entry)
      | None \<Rightarrow> if key \<in> set Object_prototype_names then Some (Inherited key) else None)"

text \<open>
  \<^verbatim>\<open>const cfg = EVENT_CONFIG[evt.event_type] || EVENT_CONFIG.deforestation\<close>, as
  \<^verbatim>\<open>EventFeed\<close>, \<^verbatim>\<open>EventGrid\<close> and \<^verbatim>\<open>WorldMap\<close> write it.
\<close>

definition event_cfg :: "string \<Rightarrow> cfg_value" where
  "event_cfg ty =
     (case EVENT_CONFIG_get ty of
        Some v \<Rightarrow> v
      | None \<Rightarrow> Entry cfg_deforestation)"

text \<open>
  \<^verbatim>\<open>cfg.icon\<close>, \<^verbatim>\<open>cfg.label\<close>, \<^verbatim>\<open>cfg.color\<close>, \<^verbatim>\<open>cfg.bg\<close>: the field of an entry; no member
  of \<^verbatim>\<open>Object.prototype\<close> has a property of any of these names, so the read gives
  \<^verbatim>\<open>undefined\<close> (\<open>None\<close>) there.
\<close>

fun cfg_field :: "(event_config \<Rightarrow> string) \<Rightarrow> cfg_value \<Rightarrow> string option" where
  "cfg_field field (Entry entry) = Some (field entry)"
| "cfg_field field (Inherited name) = None"

section \<open>Sample data for the examples\<close>

text \<open>
  Frames used in the examples, and \<^verbatim>\<open>JSON.parse\<close> on them. Of the texts the examples
  use, these are the ones that are JSON.
\<close>

definition event_named :: "string \<Rightarrow> js" where
  "event_named name = JObj [(''event_id'', JStr name)]"

definition frame_ABC :: string where
  \<open>frame_ABC = ''{"type":"history","events":[{"event_id":"A"},{"event_id":"B"},{"event_id":"C"}]}''\<close>

definition frame_D :: string where
  \<open>frame_D = ''{"type":"new_events","events":[{"event_id":"D"}]}''\<close>

definition frame_XY :: string where
  \<open>frame_XY = ''{"type":"history","events":[{"event_id":"X"},{"event_id":"Y"}]}''\<close>

definition frame_no_new :: string where
  \<open>frame_no_new = ''{"type":"new_events","events":[]}''\<close>

definition frame_no_events :: string where
  \<open>frame_no_events = ''{"type":"history"}''\<close>

definition frame_ping :: string where
  \<open>frame_ping = ''{"type":"ping"}''\<close>

definition frame_events_number :: string where
  \<open>frame_events_number = ''{"type":"new_events","events":5}''\<close>

definition frame_events_string :: string where
  \<open>frame_events_string = ''{"type":"history","events":"abcdef"}''\<close>

definition stream_frame :: "string \<Rightarrow> js list \<Rightarrow> js" where
  "stream_frame ty batch = JObj [(''type'', JStr ty), (''events'', JArr batch)]"

definition JSON_parse_sample :: "string \<Rightarrow> js option" where
  "JSON_parse_sample data =
     (if data = frame_ABC then Some (stream_frame ''history'' [event_named ''A'', event_named ''B'', event_named ''C''])
      else if data = frame_D then Some (stream_frame ''new_events'' [event_named ''D''])
      else if data = frame_XY then Some (stream_frame ''history'' [event_named ''X'', event_named ''Y''])
      else if data = frame_no_new then Some (stream_frame ''new_events'' [])
      else if data = frame_no_events then Some (JObj [(''type'', JStr ''history'')])
      else if data = frame_ping then Some (JObj [(''type'', JStr ''ping'')])
      else if data = frame_events_number then
        Some (JObj [(''type'', JStr ''new_events''), (''events'', JNum 5)])
      else if data = frame_events_string then
        Some (JObj [(''type'', JStr ''history''), (''events'', JStr ''abcdef'')])
      else None)"

text \<open>A stand-in for the list \<^verbatim>\<open>generateMockEvents(30)\<close> returns.\<close>

definition mock_sample :: js where
  "mock_sample = JArr [event_named ''EVT_MOCK'']"

section \<open>JavaScript numbers: IEEE 754 binary64 arithmetic\<close>

text \<open>
  The geographic helpers compute with JavaScript numbers, which are IEEE 754 doubles. A
  double is a finite value (a rational; \<open>Fin 0\<close> is \<open>+0\<close>), the negative zero, an
  infinity (\<open>Infinity True\<close> is \<open>-Infinity\<close>) or \<open>NaN\<close>. Every operation computes the exact
  rational result and rounds it to the nearest double, ties to even, as the language
  prescribes; the operations below always return representable values. The type also
  holds \<open>Fin x\<close> for rationals \<open>x\<close> that are not doubles: a theorem about all values of the
  type says more than one about all doubles, and the examples use representable values.
\<close>

datatype double = Fin rat | NegZero | Infinity bool | NaN

text \<open>The value of a finite double, and which doubles are finite.\<close>

fun dval :: "double \<Rightarrow> rat" where
  "dval (Fin x) = x"
| "dval d = 0"

fun is_finite :: "double \<Rightarrow> bool" where
  "is_finite (Fin x) = True"
| "is_finite NegZero = True"
| "is_finite d = False"

fun is_zero :: "double \<Rightarrow> bool" where
  "is_zero (Fin x) = (x = 0)"
| "is_zero NegZero = True"
| "is_zero d = False"

fun sign_bit :: "double \<Rightarrow> bool" where
  "sign_bit (Fin x) = (x < 0)"
| "sign_bit NegZero = True"
| "sign_bit (Infinity s) = s"
| "sign_bit NaN = False"

definition zero_of :: "bool \<Rightarrow> double" where
  "zero_of s = (if s then NegZero else Fin 0)"

text \<open>
  Rounding. \<open>ilog2 a\<close> is the binary exponent of a positive rational: \<open>2 powi ilog2 a \<le> a\<close>
  and \<open>a < 2 powi (ilog2 a + 1)\<close>. A double has 53 significant bits, so the doubles near
  \<open>a\<close> are the multiples of \<open>2 powi (ilog2 a - 52)\<close>, and never of less than
  \<open>2 powi (- 1074)\<close>, the smallest subnormal. \<open>rnd_mag a\<close> is the multiple nearest to \<open>a\<close>,
  the even one on a tie. A magnitude that rounds to \<open>2 powi 1024\<close> overflows to an
  infinity, and one that rounds to zero keeps its sign.
\<close>

definition ilog2 :: "rat \<Rightarrow> int" where
  "ilog2 a =
     (let (p, q) = quotient_of a;
          k = bitlen p - bitlen q
      in if 2 powi k \<le> a then k else k - 1)"

definition round_half_even :: "rat \<Rightarrow> int" where
  "round_half_even r =
     (let f = \<lfloor>r\<rfloor>;
          d = r - of_int f
      in if d < 1 / 2 then f
         else if 1 / 2 < d then f + 1
         else if even f then f else f + 1)"

definition rnd_exp :: "rat \<Rightarrow> int" where
  "rnd_exp a = max (ilog2 a - 52) (- 1074)"

definition rnd_mag :: "rat \<Rightarrow> rat" where
  "rnd_mag a = of_int (round_half_even (a / 2 powi rnd_exp a)) * 2 powi rnd_exp a"

definition rnd :: "rat \<Rightarrow> double" where
  "rnd x =
     (if x = 0 then Fin 0
      else if 2 powi 1024 \<le> rnd_mag \<bar>x\<bar> then Infinity (x < 0)
      else if rnd_mag \<bar>x\<bar> = 0 then (if x < 0 then NegZero else Fin 0)
      else Fin (if x < 0 then - rnd_mag \<bar>x\<bar> else rnd_mag \<bar>x\<bar>))"

text \<open>
  The largest finite double, \<^verbatim>\<open>Number.MAX_VALUE\<close>; the smallest positive normal double is
  \<open>2 powi (- 1022)\<close>, and the smallest positive double, a subnormal one, is
  \<open>2 powi (- 1074)\<close>, which JavaScript prints as \<^verbatim>\<open>5e-324\<close>.
\<close>

definition max_double :: rat where
  "max_double = (2 ^ 53 - 1) * 2 powi 971"

text \<open>A value of the type is a double when rounding leaves it as it is.\<close>

definition representable :: "double \<Rightarrow> bool" where
  "representable d = (case d of Fin x \<Rightarrow> rnd x = Fin x | _ \<Rightarrow> True)"

text \<open>
  The bound on the rounding error used below: half a unit in the last place, which is at
  most \<open>\<bar>x\<bar> * 2 powi (- 53)\<close> for a normal result and \<open>2 powi (- 1075)\<close> for a subnormal one.
\<close>

definition rnd_bound :: "rat \<Rightarrow> rat" where
  "rnd_bound x = \<bar>x\<bar> * 2 powi (- 53) + 2 powi (- 1075)"

text \<open>
  The operators \<^verbatim>\<open>-x\<close>, \<^verbatim>\<open>a + b\<close>, \<^verbatim>\<open>a - b\<close>, \<^verbatim>\<open>a * b\<close>, \<^verbatim>\<open>a / b\<close> and \<^verbatim>\<open>a < b\<close> on
  numbers, with their cases for \<open>NaN\<close>, the infinities and the signed zeros. An exact sum
  of zero is \<open>+0\<close> unless both operands are negative zeros.
\<close>

fun dneg :: "double \<Rightarrow> double" where
  "dneg (Fin x) = (if x = 0 then NegZero else Fin (- x))"
| "dneg NegZero = Fin 0"
| "dneg (Infinity s) = Infinity (\<not> s)"
| "dneg NaN = NaN"

fun dadd :: "double \<Rightarrow> double \<Rightarrow> double" where
  "dadd NaN b = NaN"
| "dadd a NaN = NaN"
| "dadd (Infinity s) (Infinity t) = (if s = t then Infinity s else NaN)"
| "dadd (Infinity s) b = Infinity s"
| "dadd a (Infinity t) = Infinity t"
| "dadd a b =
     (if dval a + dval b = 0 then zero_of (sign_bit a \<and> sign_bit b)
      else rnd (dval a + dval b))"

definition dsub :: "double \<Rightarrow> double \<Rightarrow> double" where
  "dsub a b = dadd a (dneg b)"

definition dmul :: "double \<Rightarrow> double \<Rightarrow> double" where
  "dmul a b =
     (if a = NaN \<or> b = NaN then NaN
      else if \<not> is_finite a \<or> \<not> is_finite b then
        (if is_zero a \<or> is_zero b then NaN else Infinity (sign_bit a \<noteq> sign_bit b))
      else if is_zero a \<or> is_zero b then zero_of (sign_bit a \<noteq> sign_bit b)
      else rnd (dval a * dval b))"

definition ddiv :: "double \<Rightarrow> double \<Rightarrow> double" where
  "ddiv a b =
     (if a = NaN \<or> b = NaN then NaN
      else if \<not> is_finite a then
        (if is_finite b then Infinity (sign_bit a \<noteq> sign_bit b) else NaN)
      else if \<not> is_finite b then zero_of (sign_bit a \<noteq> sign_bit b)
      else if is_zero b then
        (if is_zero a then NaN else Infinity (sign_bit a \<noteq> sign_bit b))
      else if is_zero a then zero_of (sign_bit a \<noteq> sign_bit b)
      else rnd (dval a / dval b))"

fun dlt :: "double \<Rightarrow> double \<Rightarrow> bool" where
  "dlt NaN b = False"
| "dlt a NaN = False"
| "dlt (Infinity s) (Infinity t) = (s \<and> \<not> t)"
| "dlt (Infinity s) b = s"
| "dlt a (Infinity t) = (\<not> t)"
| "dlt a b = (dval a < dval b)"

section \<open>The geographic helpers: \<^verbatim>\<open>geoUtils\<close>\<close>

text \<open>
  An event is an object with the numbers \<^verbatim>\<open>lat\<close> and \<^verbatim>\<open>lon\<close> among its properties; the
  helpers read no other property, so an event is any record that extends \<open>latlon\<close>.
\<close>

record latlon =
  lat :: double
  lon :: double

text \<open>
  \<^verbatim>\<open>latToY = (lat, h) => ((90 - lat) / 180) * h\<close>,
  \<^verbatim>\<open>lonToX = (lon, w) => ((lon + 180) / 360) * w\<close> and
  \<^verbatim>\<open>xyToLatLon = (x, y, w, h) => ({lat: 90 - (y / h) * 180, lon: (x / w) * 360 - 180})\<close>,
  every operator rounding its result.
\<close>

definition latToY :: "double \<Rightarrow> double \<Rightarrow> double" where
  "latToY la h = dmul (ddiv (dsub (Fin 90) la) (Fin 180)) h"

definition lonToX :: "double \<Rightarrow> double \<Rightarrow> double" where
  "lonToX lo w = dmul (ddiv (dadd lo (Fin 180)) (Fin 360)) w"

definition xyToLatLon :: "double \<Rightarrow> double \<Rightarrow> double \<Rightarrow> double \<Rightarrow> latlon" where
  "xyToLatLon x y w h =
     \<lparr>lat = dsub (Fin 90) (dmul (ddiv y h) (Fin 180)),
      lon = dsub (dmul (ddiv x w) (Fin 360)) (Fin 180)\<rparr>"

text \<open>
  \<^verbatim>\<open>Math.hypot(a, b)\<close>. The language fixes its result when an argument is an infinity
  (\<open>+Infinity\<close>), otherwise when one is \<open>NaN\<close> (\<open>NaN\<close>), and when both are zeros (\<open>+0\<close>);
  for the other arguments the result is an approximation of the square root of the sum
  of the squares that the platform chooses. That choice is the parameter \<open>approx\<close>.
\<close>

definition Math_hypot :: "(rat \<Rightarrow> rat \<Rightarrow> double) \<Rightarrow> double \<Rightarrow> double \<Rightarrow> double" where
  "Math_hypot approx a b =
     (if \<not> is_finite a \<and> a \<noteq> NaN \<or> \<not> is_finite b \<and> b \<noteq> NaN then Infinity False
      else if a = NaN \<or> b = NaN then NaN
      else if is_zero a \<and> is_zero b then Fin 0
      else approx (dval a) (dval b))"

text \<open>
  \<^verbatim>\<open>findNearestEvent\<close>: the body of the \<^verbatim>\<open>forEach\<close> on the pair of the variables
  \<^verbatim>\<open>closest\<close> and \<^verbatim>\<open>minDist\<close>, which start as \<^verbatim>\<open>null\<close> and \<^verbatim>\<open>maxDist\<close>; the result is
  \<^verbatim>\<open>closest\<close>, \<open>None\<close> for \<^verbatim>\<open>null\<close>. The tolerance \<^verbatim>\<open>maxDist\<close>, 18 when the caller
  leaves it out, is always passed.
\<close>

fun nearest_loop ::
  "(rat \<Rightarrow> rat \<Rightarrow> double) \<Rightarrow> double \<Rightarrow> double \<Rightarrow> double \<Rightarrow> double \<Rightarrow> 'a latlon_scheme list \<Rightarrow>
   'a latlon_scheme option \<times> double \<Rightarrow> 'a latlon_scheme option \<times> double" where
  "nearest_loop approx mx my w h [] (closest, minDist) = (closest, minDist)"
| "nearest_loop approx mx my w h (evt # rest) (closest, minDist) =
     (let x = lonToX (lon evt) w;
          y = latToY (lat evt) h;
          d = Math_hypot approx (dsub mx x) (dsub my y)
      in if dlt d minDist then nearest_loop approx mx my w h rest (Some evt, d)
         else nearest_loop approx mx my w h rest (closest, minDist))"

definition findNearestEvent ::
  "(rat \<Rightarrow> rat \<Rightarrow> double) \<Rightarrow> double \<Rightarrow> double \<Rightarrow> 'a latlon_scheme list \<Rightarrow> double \<Rightarrow> double \<Rightarrow> double \<Rightarrow>
   'a latlon_scheme option" where
  "findNearestEvent approx mx my evts w h maxDist =
     fst (nearest_loop approx mx my w h evts (None, maxDist))"

subsection \<open>The specification's pixel distance\<close>

text \<open>
  The distance the specification of the hit test speaks of, in its words: the event is
  projected to the pixel \<open>((lon + 180) / 360 * width, (90 - lat) / 180 * height)\<close>, and the
  distance is the Euclidean distance from the pointer \<open>(px, py)\<close> to that pixel. It is
  written out with the operators, not with the helpers above.
\<close>

definition pixel_distance ::
  "(rat \<Rightarrow> rat \<Rightarrow> double) \<Rightarrow> double \<Rightarrow> double \<Rightarrow> double \<Rightarrow> double \<Rightarrow> 'a latlon_scheme \<Rightarrow> double" where
  "pixel_distance approx px py width height e =
     Math_hypot approx
       (dsub px (dmul (ddiv (dadd (lon e) (Fin 180)) (Fin 360)) width))
       (dsub py (dmul (ddiv (dsub (Fin 90) (lat e)) (Fin 180)) height))"

subsection \<open>Accuracy of the platform's \<^verbatim>\<open>Math.hypot\<close>\<close>

text \<open>
  What the examples with concrete distances need of the platform: away from overflow and
  underflow, its \<^verbatim>\<open>Math.hypot\<close> returns a finite number within the relative error
  \<open>2 powi (- 50)\<close>, a few units in the last place, of the true square root.
\<close>

definition hypot_accurate :: "(rat \<Rightarrow> rat \<Rightarrow> double) \<Rightarrow> bool" where
  "hypot_accurate approx \<longleftrightarrow>
     (\<forall>x y. 2 powi (- 2000) \<le> x\<^sup>2 + y\<^sup>2 \<and> x\<^sup>2 + y\<^sup>2 \<le> 2 powi 2000 \<longrightarrow>
        (\<exists>m. approx x y = Fin m \<and> 0 \<le> m
           \<and> \<bar>real_of_rat m - sqrt (real_of_rat (x\<^sup>2 + y\<^sup>2))\<bar>
               \<le> sqrt (real_of_rat (x\<^sup>2 + y\<^sup>2)) * 2 powi (- 50)))"

text \<open>
  One such platform, which can be run: the integer square root, found bit by bit, of the
  sum of the squares scaled by \<open>2 ^ 128\<close>, rounded to a double.
\<close>

fun isqrt_from :: "nat \<Rightarrow> nat \<Rightarrow> nat \<Rightarrow> nat" where
  "isqrt_from 0 n r = r"
| "isqrt_from (Suc i) n r = isqrt_from i n (if (r + 2 ^ i)\<^sup>2 \<le> n then r + 2 ^ i else r)"

definition isqrt :: "nat \<Rightarrow> nat" where
  "isqrt n = isqrt_from (nat (bitlen (int n))) n 0"

definition sqrt_approx :: "rat \<Rightarrow> rat" where
  "sqrt_approx s =
     (let (p, q) = quotient_of s
      in of_nat (isqrt (nat (p * q * 2 ^ 128))) / (of_int q * 2 ^ 64))"

definition hypot_sample :: "rat \<Rightarrow> rat \<Rightarrow> double" where
  "hypot_sample x y = rnd (sqrt_approx (x\<^sup>2 + y\<^sup>2))"

subsection \<open>Sample coordinates\<close>

text \<open>
  The double nearest to \<open>0.1\<close>, and three events: at 45 N 90 W and at 36 N 90 W, which a
  canvas of 400 by 400 pixels shows at the pixels \<open>(100, 100)\<close> and \<open>(100, 120)\<close>, and at
  0 N 5 E.
\<close>

definition tenth :: double where
  "tenth = Fin (3602879701896397 / 36028797018963968)"

definition event_45_90w :: latlon where
  "event_45_90w = \<lparr>lat = Fin 45, lon = Fin (- 90)\<rparr>"

definition event_36_90w :: latlon where
  "event_36_90w = \<lparr>lat = Fin 36, lon = Fin (- 90)\<rparr>"

definition event_0_5e :: latlon where
  "event_0_5e = \<lparr>lat = Fin 0, lon = Fin 5\<rparr>"

section \<open>Properties of the stream client\<close>

lemma slice0_nonneg: "0 \<le> n \<Longrightarrow> slice0 xs n = take (nat n) xs"
  by (simp add: slice0_def)

lemma take_prepend_take: "take n (batch @ take n seen) = take n (batch @ seen)"
  by (simp add: take_append min_def)

lemma sample_frames [simp]:
  "JSON_parse_sample frame_ABC = Some (stream_frame ''history'' [event_named ''A'', event_named ''B'', event_named ''C''])"
  "JSON_parse_sample frame_D = Some (stream_frame ''new_events'' [event_named ''D''])"
  "JSON_parse_sample frame_XY = Some (stream_frame ''history'' [event_named ''X'', event_named ''Y''])"
  "JSON_parse_sample frame_no_new = Some (stream_frame ''new_events'' [])"
  "JSON_parse_sample frame_no_events = Some (JObj [(''type'', JStr ''history'')])"
  "JSON_parse_sample frame_ping = Some (JObj [(''type'', JStr ''ping'')])"
  "JSON_parse_sample frame_events_number =
     Some (JObj [(''type'', JStr ''new_events''), (''events'', JNum 5)])"
  "JSON_parse_sample frame_events_string =
     Some (JObj [(''type'', JStr ''history''), (''events'', JStr ''abcdef'')])"
  "JSON_parse_sample ''not json'' = None"
  by (simp_all add: JSON_parse_sample_def frame_ABC_def frame_D_def frame_XY_def
        frame_no_new_def frame_no_events_def frame_ping_def frame_events_number_def
        frame_events_string_def)

lemma carries_stream_frame [simp]: "carries (stream_frame ty batch) ty' batch' \<longleftrightarrow> ty = ty' \<and> batch = batch'"
  by (auto simp: carries_def stream_frame_def)

lemma onmessage_history:
  assumes "JSON_parse data = Some msg" and "carries msg ''history'' batch"
  shows "ws_onmessage JSON_parse maxEvents data c =
           Handled (c\<lparr>events := JArr (slice0 batch maxEvents), feed := JArr (slice0 batch 20)\<rparr>) None"
  using assms by (simp add: ws_onmessage_def carries_def)

lemma onmessage_new_events:
  assumes "JSON_parse data = Some msg" and "carries msg ''new_events'' batch"
    and "js_spread (events c) = Inr window" and "js_spread (feed c) = Inr recent"
  shows "ws_onmessage JSON_parse maxEvents data c =
           Handled (c\<lparr>latestEvent := js_or (case batch of [] \<Rightarrow> JUndefined | x # _ \<Rightarrow> x) JNull,
                      events := JArr (slice0 (batch @ window) maxEvents),
                      feed := JArr (slice0 (batch @ recent) 20)\<rparr>) None"
  using assms by (simp add: ws_onmessage_def carries_def prepend_updater_def)

lemma deliver_stream:
  assumes "0 \<le> maxEvents" and "list_all2 (frame_of JSON_parse) frames msgs"
    and "events c = JArr (take (nat maxEvents) seen)" and "feed c = JArr (take 20 seen)"
  shows "\<exists>c'. deliver_frames JSON_parse maxEvents frames c = Inr c'
           \<and> events c' = JArr (take (nat maxEvents) (arrival_order seen msgs))
           \<and> feed c' = JArr (take 20 (arrival_order seen msgs))"
  using assms(2,3,4)
proof (induction frames msgs arbitrary: c seen rule: list_all2_induct)
  case Nil
  then show ?case by simp
next
  case (Cons data frames m msgs)
  show ?case
  proof (cases m)
    case (Snapshot batch)
    with Cons.hyps(1) obtain msg where p: "JSON_parse data = Some msg" and k: "carries msg ''history'' batch"
      by (auto split: option.splits)
    define c1 where "c1 = c\<lparr>events := JArr (slice0 batch maxEvents), feed := JArr (slice0 batch 20)\<rparr>"
    have step: "ws_onmessage JSON_parse maxEvents data c = Handled c1 None"
      unfolding c1_def by (rule onmessage_history [where JSON_parse = JSON_parse and data = data, OF p k])
    have "events c1 = JArr (take (nat maxEvents) batch)" "feed c1 = JArr (take 20 batch)"
      using assms(1) by (simp_all add: c1_def slice0_nonneg)
    from Cons.IH [OF this] show ?thesis
      by (simp add: step Snapshot)
  next
    case (Delta batch)
    with Cons.hyps(1) obtain msg where p: "JSON_parse data = Some msg" and k: "carries msg ''new_events'' batch"
      by (auto split: option.splits)
    have w: "js_spread (events c) = Inr (take (nat maxEvents) seen)"
      and r: "js_spread (feed c) = Inr (take 20 seen)"
      using Cons.prems by simp_all
    define c1 where "c1 = c\<lparr>latestEvent := js_or (case batch of [] \<Rightarrow> JUndefined | x # _ \<Rightarrow> x) JNull,
                      events := JArr (slice0 (batch @ take (nat maxEvents) seen) maxEvents),
                      feed := JArr (slice0 (batch @ take 20 seen) 20)\<rparr>"
    have step: "ws_onmessage JSON_parse maxEvents data c = Handled c1 None"
      unfolding c1_def by (rule onmessage_new_events [where JSON_parse = JSON_parse and data = data, OF p k w r])
    have "events c1 = JArr (take (nat maxEvents) (batch @ seen))" "feed c1 = JArr (take 20 (batch @ seen))"
      using assms(1) by (simp_all add: c1_def slice0_nonneg take_prepend_take)
    from Cons.IH [OF this] show ?thesis
      by (simp add: step Delta)
  qed
qed

text \<open>
  C1. A snapshot message replaces the full window by its batch cut to \<open>maxEvents\<close> and the
  feed by its batch cut to 20. A delta message puts its batch in front of the window and
  of the feed held so far and cuts them to \<open>maxEvents\<close> and to 20. After the snapshot
  \<open>[A, B, C]\<close> and the delta \<open>[D]\<close> the full window is \<open>[D, A, B, C]\<close>, and a further
  snapshot \<open>[X, Y]\<close> makes it \<open>[X, Y]\<close>. The cap \<open>maxEvents\<close> is a count, not negative.
\<close>

theorem snapshot_replaces_delta_prepends:
  assumes "0 \<le> maxEvents"
  shows "(\<forall>data msg batch c. JSON_parse data = Some msg \<and> carries msg ''history'' batch \<longrightarrow>
            (\<exists>c'. ws_onmessage JSON_parse maxEvents data c = Handled c' None
               \<and> events c' = JArr (take (nat maxEvents) batch)
               \<and> feed c' = JArr (take 20 batch)))
       \<and> (\<forall>data msg batch c window recent.
            JSON_parse data = Some msg \<and> carries msg ''new_events'' batch
            \<and> js_spread (events c) = Inr window \<and> js_spread (feed c) = Inr recent \<longrightarrow>
            (\<exists>c'. ws_onmessage JSON_parse maxEvents data c = Handled c' None
               \<and> events c' = JArr (take (nat maxEvents) (batch @ window))
               \<and> feed c' = JArr (take 20 (batch @ recent))))
       \<and> (\<forall>s1 d s2 A B C D X Y.
            4 \<le> maxEvents \<and> frame_of JSON_parse s1 (Snapshot [A, B, C])
            \<and> frame_of JSON_parse d (Delta [D]) \<and> frame_of JSON_parse s2 (Snapshot [X, Y]) \<longrightarrow>
            (\<exists>c1 c2. deliver_frames JSON_parse maxEvents [s1, d] initial_client = Inr c1
               \<and> events c1 = JArr [D, A, B, C]
               \<and> deliver_frames JSON_parse maxEvents [s1, d, s2] initial_client = Inr c2
               \<and> events c2 = JArr [X, Y]))"
proof (intro conjI allI impI)
  fix data msg batch and c :: client
  assume h: "JSON_parse data = Some msg \<and> carries msg ''history'' batch"
  then have p: "JSON_parse data = Some msg" and k: "carries msg ''history'' batch"
    by simp_all
  from onmessage_history [where JSON_parse = JSON_parse and data = data, OF p k, of maxEvents c]
  show "\<exists>c'. ws_onmessage JSON_parse maxEvents data c = Handled c' None
               \<and> events c' = JArr (take (nat maxEvents) batch)
               \<and> feed c' = JArr (take 20 batch)"
    using assms by (simp add: slice0_nonneg)
next
  fix data msg batch window recent and c :: client
  assume h: "JSON_parse data = Some msg \<and> carries msg ''new_events'' batch
            \<and> js_spread (events c) = Inr window \<and> js_spread (feed c) = Inr recent"
  then have p: "JSON_parse data = Some msg" and k: "carries msg ''new_events'' batch"
    and w: "js_spread (events c) = Inr window" and r: "js_spread (feed c) = Inr recent"
    by simp_all
  from onmessage_new_events [where JSON_parse = JSON_parse and data = data, OF p k w r, of maxEvents]
  show "\<exists>c'. ws_onmessage JSON_parse maxEvents data c = Handled c' None
               \<and> events c' = JArr (take (nat maxEvents) (batch @ window))
               \<and> feed c' = JArr (take 20 (batch @ recent))"
    using assms by (simp add: slice0_nonneg)
next
  fix s1 d s2 A B C D X Y
  assume h: "4 \<le> maxEvents \<and> frame_of JSON_parse s1 (Snapshot [A, B, C])
            \<and> frame_of JSON_parse d (Delta [D]) \<and> frame_of JSON_parse s2 (Snapshot [X, Y])"
  then obtain m1 m2 m3 where
    p1: "JSON_parse s1 = Some m1" "carries m1 ''history'' [A, B, C]" and
    p2: "JSON_parse d = Some m2" "carries m2 ''new_events'' [D]" and
    p3: "JSON_parse s2 = Some m3" "carries m3 ''history'' [X, Y]"
    by (auto split: option.splits)
  from h have big: "4 \<le> maxEvents" by simp
  then have n: "4 \<le> nat maxEvents" by simp
  have t4: "take (nat maxEvents) [D, A, B, C] = [D, A, B, C]"
    and t3: "take (nat maxEvents) [A, B, C] = [A, B, C]"
    and t2: "take (nat maxEvents) [X, Y] = [X, Y]"
    using n by simp_all
  define c1 where "c1 = initial_client\<lparr>events := JArr [A, B, C], feed := JArr [A, B, C]\<rparr>"
  define c2 where "c2 = c1\<lparr>latestEvent := js_or D JNull,
                           events := JArr [D, A, B, C], feed := JArr [D, A, B, C]\<rparr>"
  define c3 where "c3 = c2\<lparr>events := JArr [X, Y], feed := JArr [X, Y]\<rparr>"
  have step1: "ws_onmessage JSON_parse maxEvents s1 initial_client = Handled c1 None"
    using onmessage_history [where JSON_parse = JSON_parse and data = s1, OF p1, of maxEvents initial_client] big t3
    by (simp add: c1_def slice0_nonneg slice0_def)
  have e1: "js_spread (events c1) = Inr [A, B, C]" "js_spread (feed c1) = Inr [A, B, C]"
    by (simp_all add: c1_def)
  have step2: "ws_onmessage JSON_parse maxEvents d c1 = Handled c2 None"
    using onmessage_new_events [where JSON_parse = JSON_parse and data = d, OF p2 e1, of maxEvents] big t4
    by (simp add: c2_def slice0_nonneg slice0_def)
  have step3: "ws_onmessage JSON_parse maxEvents s2 c2 = Handled c3 None"
    using onmessage_history [where JSON_parse = JSON_parse and data = s2, OF p3, of maxEvents c2] big t2
    by (simp add: c3_def slice0_nonneg slice0_def)
  have "deliver_frames JSON_parse maxEvents [s1, d] initial_client = Inr c2"
    by (simp add: step1 step2)
  moreover have "deliver_frames JSON_parse maxEvents [s1, d, s2] initial_client = Inr c3"
    by (simp add: step1 step2 step3)
  moreover have "events c2 = JArr [D, A, B, C]" "events c3 = JArr [X, Y]"
    by (simp_all add: c2_def c3_def)
  ultimately show "\<exists>c1 c2. deliver_frames JSON_parse maxEvents [s1, d] initial_client = Inr c1
               \<and> events c1 = JArr [D, A, B, C]
               \<and> deliver_frames JSON_parse maxEvents [s1, d, s2] initial_client = Inr c2
               \<and> events c2 = JArr [X, Y]"
    by blast
qed

theorem snapshot_replaces_delta_prepends_witness:
  "0 \<le> default_maxEvents \<and> 4 \<le> default_maxEvents
   \<and> frame_of JSON_parse_sample frame_ABC (Snapshot [event_named ''A'', event_named ''B'', event_named ''C''])
   \<and> frame_of JSON_parse_sample frame_D (Delta [event_named ''D''])
   \<and> frame_of JSON_parse_sample frame_XY (Snapshot [event_named ''X'', event_named ''Y''])
   \<and> (\<exists>c'. ws_onmessage JSON_parse_sample default_maxEvents frame_ABC initial_client = Handled c' None
          \<and> events c' = JArr [event_named ''A'', event_named ''B'', event_named ''C'']
          \<and> feed c' = JArr [event_named ''A'', event_named ''B'', event_named ''C''])
   \<and> (\<exists>c'. ws_onmessage JSON_parse_sample default_maxEvents frame_D
               (initial_client\<lparr>events := JArr [event_named ''A''], feed := JArr [event_named ''B'']\<rparr>) = Handled c' None
          \<and> events c' = JArr [event_named ''D'', event_named ''A'']
          \<and> feed c' = JArr [event_named ''D'', event_named ''B''])
   \<and> (\<exists>c1 c2.
         deliver_frames JSON_parse_sample default_maxEvents [frame_ABC, frame_D] initial_client = Inr c1
         \<and> events c1 = JArr [event_named ''D'', event_named ''A'', event_named ''B'', event_named ''C'']
         \<and> deliver_frames JSON_parse_sample default_maxEvents [frame_ABC, frame_D, frame_XY]
               initial_client = Inr c2
         \<and> events c2 = JArr [event_named ''X'', event_named ''Y''])"
proof -
  have cap: "0 \<le> default_maxEvents"
    by (simp add: default_maxEvents_def)
  note all = snapshot_replaces_delta_prepends [where JSON_parse = JSON_parse_sample, OF cap]
  have h1: "JSON_parse_sample frame_ABC = Some (stream_frame ''history'' [event_named ''A'', event_named ''B'', event_named ''C''])
            \<and> carries (stream_frame ''history'' [event_named ''A'', event_named ''B'', event_named ''C'']) ''history''
                 [event_named ''A'', event_named ''B'', event_named ''C'']"
    by simp
  have h2: "JSON_parse_sample frame_D = Some (stream_frame ''new_events'' [event_named ''D''])
            \<and> carries (stream_frame ''new_events'' [event_named ''D'']) ''new_events'' [event_named ''D'']
            \<and> js_spread (events (initial_client\<lparr>events := JArr [event_named ''A''], feed := JArr [event_named ''B'']\<rparr>))
                = Inr [event_named ''A'']
            \<and> js_spread (feed (initial_client\<lparr>events := JArr [event_named ''A''], feed := JArr [event_named ''B'']\<rparr>))
                = Inr [event_named ''B'']"
    by simp
  have h3: "4 \<le> default_maxEvents
            \<and> frame_of JSON_parse_sample frame_ABC (Snapshot [event_named ''A'', event_named ''B'', event_named ''C''])
            \<and> frame_of JSON_parse_sample frame_D (Delta [event_named ''D''])
            \<and> frame_of JSON_parse_sample frame_XY (Snapshot [event_named ''X'', event_named ''Y''])"
    by (simp add: default_maxEvents_def)
  note r1 = all [THEN conjunct1, rule_format, OF h1, of initial_client]
  note r2 = all [THEN conjunct2, THEN conjunct1, rule_format, OF h2]
  note r3 = all [THEN conjunct2, THEN conjunct2, rule_format, OF h3]
  from cap h3 r1 r2 r3 show ?thesis
    by (simp add: default_maxEvents_def)
qed

text \<open>
  C2. After any sequence of snapshot and delta messages the full window holds at most
  \<open>maxEvents\<close> entries and the feed at most 20, and both are the front of the arrival
  order, newest first: the events of each delta batch stand before everything held
  earlier.
\<close>

theorem windows_capped_newest_first:
  assumes "0 \<le> maxEvents" and "list_all2 (frame_of JSON_parse) frames msgs"
  shows "\<exists>c'. deliver_frames JSON_parse maxEvents frames initial_client = Inr c'
           \<and> js_length (events c') \<le> nat maxEvents \<and> js_length (feed c') \<le> 20
           \<and> events c' = JArr (take (nat maxEvents) (arrival_order [] msgs))
           \<and> feed c' = JArr (take 20 (arrival_order [] msgs))"
proof -
  have "events initial_client = JArr (take (nat maxEvents) [])"
    and "feed initial_client = JArr (take 20 [])"
    by (simp_all add: initial_client_def)
  from deliver_stream [OF assms this] show ?thesis
    by auto
qed

theorem windows_capped_newest_first_witness:
  "0 \<le> default_maxEvents
   \<and> list_all2 (frame_of JSON_parse_sample) [frame_ABC, frame_D]
        [Snapshot [event_named ''A'', event_named ''B'', event_named ''C''], Delta [event_named ''D'']]
   \<and> (\<exists>c'. deliver_frames JSON_parse_sample default_maxEvents [frame_ABC, frame_D] initial_client = Inr c'
           \<and> js_length (events c') \<le> 200 \<and> js_length (feed c') \<le> 20
           \<and> events c' = JArr [event_named ''D'', event_named ''A'', event_named ''B'', event_named ''C'']
           \<and> feed c' = JArr [event_named ''D'', event_named ''A'', event_named ''B'', event_named ''C''])"
proof -
  have cap: "0 \<le> default_maxEvents"
    by (simp add: default_maxEvents_def)
  have frames: "list_all2 (frame_of JSON_parse_sample) [frame_ABC, frame_D]
        [Snapshot [event_named ''A'', event_named ''B'', event_named ''C''], Delta [event_named ''D'']]"
    by simp
  from windows_capped_newest_first [OF cap frames] cap frames show ?thesis
    by (simp add: default_maxEvents_def)
qed

text \<open>
  The frames the handler does ignore: a frame that is not JSON, a message whose
  \<^verbatim>\<open>events\<close> property is absent or \<^verbatim>\<open>null\<close> (or that is itself \<^verbatim>\<open>null\<close>, so that the
  read throws), and a message whose type is neither \<^verbatim>\<open>"history"\<close> nor
  \<^verbatim>\<open>"new_events"\<close>. The client is left exactly as it was.
\<close>

lemma ignored_frames:
  assumes "JSON_parse data = None
           \<or> (\<exists>msg. JSON_parse data = Some msg
                 \<and> (get_prop msg ''events'' = Inl TypeError
                    \<or> get_prop msg ''events'' = Inr JUndefined
                    \<or> get_prop msg ''events'' = Inr JNull))
           \<or> (\<exists>msg. JSON_parse data = Some msg
                 \<and> get_prop msg ''type'' \<noteq> Inr (JStr ''history'')
                 \<and> get_prop msg ''type'' \<noteq> Inr (JStr ''new_events''))"
  shows "\<exists>logged. ws_onmessage JSON_parse maxEvents data c = Handled c logged"
proof -
  consider (unparseable) "JSON_parse data = None"
    | (no_events) msg where "JSON_parse data = Some msg"
        "get_prop msg ''events'' = Inl TypeError
         \<or> get_prop msg ''events'' = Inr JUndefined
         \<or> get_prop msg ''events'' = Inr JNull"
    | (other_type) msg where "JSON_parse data = Some msg"
        "get_prop msg ''type'' \<noteq> Inr (JStr ''history'')"
        "get_prop msg ''type'' \<noteq> Inr (JStr ''new_events'')"
    using assms by (elim disjE exE conjE) auto
  then show ?thesis
  proof cases
    case unparseable
    then show ?thesis by (simp add: ws_onmessage_def)
  next
    case no_events
    then show ?thesis
      by (auto simp: ws_onmessage_def split: sum.splits)
  next
    case other_type
    then show ?thesis
      by (auto simp: ws_onmessage_def split: sum.splits)
  qed
qed

text \<open>
  C6 fails on the code for a message that parses and whose \<^verbatim>\<open>events\<close> is present but is
  no array, so that the event array is missing. For the delta \<^verbatim>\<open>{"type":"new_events",
  "events":5}\<close> the handler sets \<open>latestEvent\<close> and queues the two updaters without a
  throw; the updater then throws a TypeError when React applies it, outside the
  handler's \<^verbatim>\<open>try\<close>. For the snapshot \<^verbatim>\<open>{"type":"history","events":"abcdef"}\<close> the
  string has a \<^verbatim>\<open>slice\<close> method, and both windows become strings.
\<close>

theorem non_array_events_not_ignored:
  "ws_onmessage JSON_parse_sample default_maxEvents frame_events_number initial_client
     = RenderError TypeError
   \<and> ws_onmessage JSON_parse_sample default_maxEvents frame_events_string initial_client
     = Handled (initial_client\<lparr>events := JStr ''abcdef'', feed := JStr ''abcdef''\<rparr>) None
   \<and> events initial_client = JArr []"
  by (simp add: ws_onmessage_def prepend_updater_def slice0_def default_maxEvents_def
      initial_client_def)

text \<open>
  C7 fails on the code. After a delta carrying the event \<open>D\<close>, \<open>latestEvent\<close> is \<open>D\<close>; a
  further delta that carries no events sets it to \<^verbatim>\<open>null\<close> (\<^verbatim>\<open>newEvts[0] || null\<close>), though
  \<open>D\<close> is still the most recently received event.
\<close>

theorem empty_delta_resets_latestEvent:
  "deliver_frames JSON_parse_sample default_maxEvents [frame_D] initial_client =
     Inr (initial_client\<lparr>latestEvent := event_named ''D'',
                         events := JArr [event_named ''D''], feed := JArr [event_named ''D'']\<rparr>)
   \<and> deliver_frames JSON_parse_sample default_maxEvents [frame_D, frame_no_new] initial_client =
     Inr (initial_client\<lparr>latestEvent := JNull,
                         events := JArr [event_named ''D''], feed := JArr [event_named ''D'']\<rparr>)
   \<and> event_named ''D'' \<noteq> JNull"
  by (simp add: ws_onmessage_def stream_frame_def prepend_updater_def initial_client_def
      js_or_def event_named_def slice0_def default_maxEvents_def)

text \<open>
  C10. A snapshot message changes the two windows and nothing else: \<open>latestEvent\<close>,
  \<open>connected\<close> and every other part of the client keep their values. From the initial
  state \<open>latestEvent\<close> is still \<^verbatim>\<open>null\<close> after a snapshot that carries events.
\<close>

theorem history_frame_effect:
  assumes "JSON_parse data = Some msg" and "get_prop msg ''type'' = Inr (JStr ''history'')"
  shows "\<exists>c' logged. ws_onmessage JSON_parse maxEvents data c = Handled c' logged
           \<and> latestEvent c' = latestEvent c \<and> connected c' = connected c
           \<and> c' = c\<lparr>events := events c', feed := feed c'\<rparr>"
  using assms
  by (auto simp: ws_onmessage_def split: sum.splits)

theorem history_frame_effect_witness:
  "JSON_parse_sample frame_ABC = Some (stream_frame ''history'' [event_named ''A'', event_named ''B'', event_named ''C''])
   \<and> get_prop (stream_frame ''history'' [event_named ''A'', event_named ''B'', event_named ''C'']) ''type'' = Inr (JStr ''history'')
   \<and> (\<exists>c' logged. ws_onmessage JSON_parse_sample default_maxEvents frame_ABC initial_client
            = Handled c' logged
          \<and> latestEvent c' = JNull \<and> connected c' = False
          \<and> events c' = JArr [event_named ''A'', event_named ''B'', event_named ''C''])"
proof -
  have p: "JSON_parse_sample frame_ABC = Some (stream_frame ''history'' [event_named ''A'', event_named ''B'', event_named ''C''])"
    and t: "get_prop (stream_frame ''history'' [event_named ''A'', event_named ''B'', event_named ''C'']) ''type'' = Inr (JStr ''history'')"
    by (simp_all add: stream_frame_def)
  have run: "ws_onmessage JSON_parse_sample default_maxEvents frame_ABC initial_client =
      Handled (initial_client\<lparr>events := JArr [event_named ''A'', event_named ''B'', event_named ''C''],
                              feed := JArr [event_named ''A'', event_named ''B'', event_named ''C'']\<rparr>) None"
    by (simp add: ws_onmessage_def stream_frame_def slice0_def default_maxEvents_def)
  from history_frame_effect [where JSON_parse = JSON_parse_sample and data = frame_ABC,
      OF p t, of default_maxEvents initial_client]
  obtain c' logged where
    eq: "ws_onmessage JSON_parse_sample default_maxEvents frame_ABC initial_client = Handled c' logged"
    and kept: "latestEvent c' = latestEvent initial_client" "connected c' = connected initial_client"
    by blast
  from eq run have "events c' = JArr [event_named ''A'', event_named ''B'', event_named ''C'']"
    by auto
  with eq kept have "ws_onmessage JSON_parse_sample default_maxEvents frame_ABC initial_client
            = Handled c' logged
          \<and> latestEvent c' = JNull \<and> connected c' = False
          \<and> events c' = JArr [event_named ''A'', event_named ''B'', event_named ''C'']"
    by (simp add: initial_client_def)
  with p t show ?thesis
    by blast
qed

section \<open>Properties of the connection\<close>

text \<open>
  C5 fails on the code. The cleanup cancels the pending timeout and calls
  \<^verbatim>\<open>ws.close()\<close>, but leaves the socket's \<^verbatim>\<open>onclose\<close> handler in place: once the mounted,
  open client is torn down, no timeout is pending and the socket is closing; the close
  event that follows runs \<^verbatim>\<open>onclose\<close>, which schedules a timeout; and when that
  timeout fires, \<^verbatim>\<open>connect\<close> constructs a second socket.
\<close>

theorem reconnect_after_teardown:
  "platform_run True [Mount, SocketOpened 0, Unmount] initial_client =
     Some (initial_client\<lparr>connected := True, wsRef := Some 0, sockets := [CLOSING]\<rparr>)
   \<and> platform_run True [SocketClosed 0]
         (initial_client\<lparr>connected := True, wsRef := Some 0, sockets := [CLOSING]\<rparr>) =
     Some (initial_client\<lparr>connected := False, wsRef := Some 0, sockets := [CLOSED],
                           reconnectTimer := Some 0, timers := [0], timer_seq := 1\<rparr>)
   \<and> platform_run True [TimerFired 0]
         (initial_client\<lparr>connected := False, wsRef := Some 0, sockets := [CLOSED],
                          reconnectTimer := Some 0, timers := [0], timer_seq := 1\<rparr>) =
     Some (initial_client\<lparr>connected := False, wsRef := Some 1, sockets := [CLOSED, CONNECTING],
                           reconnectTimer := Some 0, timers := [], timer_seq := 1\<rparr>)"
  by (simp add: initial_client_def connect_def wsRef_is_open_def ws_onopen_def clear_reconnect_def
      cleanup_def ws_close_def ws_onclose_def schedule_reconnect_def)

section \<open>Properties of the event configuration\<close>

text \<open>
  An event type that is neither a key of \<^verbatim>\<open>EVENT_CONFIG\<close> nor a name defined by
  \<^verbatim>\<open>Object.prototype\<close> gets the deforestation entry.
\<close>

lemma event_cfg_fallback:
  assumes "ty \<notin> fst ` set EVENT_CONFIG" and "ty \<notin> set Object_prototype_names"
  shows "event_cfg ty = Entry cfg_deforestation"
proof -
  from assms(1) have "map_of EVENT_CONFIG ty = None"
    by (simp add: map_of_eq_None_iff)
  with assms(2) show ?thesis
    by (simp add: event_cfg_def EVENT_CONFIG_get_def)
qed

text \<open>
  C8 fails on the code for the names \<^verbatim>\<open>Object.prototype\<close> defines. The event type
  \<^verbatim>\<open>"constructor"\<close> is none of the six keys, yet \<^verbatim>\<open>EVENT_CONFIG["constructor"]\<close> is the
  inherited function, which is truthy, so \<^verbatim>\<open>||\<close> does not fall back: the components
  render with \<^verbatim>\<open>cfg.icon\<close>, \<^verbatim>\<open>cfg.label\<close> and \<^verbatim>\<open>cfg.color\<close> undefined. The type
  \<^verbatim>\<open>"unknown_x"\<close> does get the deforestation entry.
\<close>

theorem inherited_name_defeats_fallback:
  "''constructor'' \<notin> fst ` set EVENT_CONFIG
   \<and> event_cfg ''constructor'' = Inherited ''constructor''
   \<and> cfg_field icon (event_cfg ''constructor'') = None
   \<and> cfg_field label (event_cfg ''constructor'') = None
   \<and> cfg_field color (event_cfg ''constructor'') = None
   \<and> event_cfg ''unknown_x'' = Entry cfg_deforestation"
  by (simp add: event_cfg_def EVENT_CONFIG_get_def EVENT_CONFIG_def Object_prototype_names_def)

section \<open>Properties of the view controller\<close>

text \<open>
  C9, as the code has it. The visible events are the stream client's window whenever
  that window is not empty, and the mock events whenever it is empty. The \<open>connected\<close>
  flag plays no part, and the socket's open and close handlers do not change the
  choice.
\<close>

theorem App_events_by_window:
  "(0 < js_length (events c) \<longrightarrow> App_events c mockEvents = events c)
   \<and> (js_length (events c) = 0 \<longrightarrow> App_events c mockEvents = mockEvents)
   \<and> App_events (c\<lparr>connected := b\<rparr>) mockEvents = App_events c mockEvents
   \<and> App_events (ws_onopen c) mockEvents = App_events c mockEvents
   \<and> App_events (ws_onclose c) mockEvents = App_events c mockEvents"
  by (simp add: App_events_def ws_onopen_def ws_onclose_def clear_reconnect_def
      schedule_reconnect_def split: option.splits)

theorem App_events_by_window_witness:
  "0 < js_length (events (initial_client\<lparr>events := JArr [event_named ''A'']\<rparr>))
   \<and> App_events (initial_client\<lparr>events := JArr [event_named ''A'']\<rparr>) mock_sample
       = JArr [event_named ''A'']
   \<and> js_length (events initial_client) = 0
   \<and> App_events initial_client mock_sample = mock_sample"
proof -
  have a: "0 < js_length (events (initial_client\<lparr>events := JArr [event_named ''A'']\<rparr>))"
    and b: "js_length (events initial_client) = 0"
    by (simp_all add: initial_client_def)
  note shown = App_events_by_window
      [where c = "initial_client\<lparr>events := JArr [event_named ''A'']\<rparr>" and mockEvents = mock_sample,
       THEN conjunct1, rule_format, OF a]
  note mocked = App_events_by_window [where c = initial_client and mockEvents = mock_sample,
       THEN conjunct2, THEN conjunct1, rule_format, OF b]
  from a b shown mocked show ?thesis
    by simp
qed

text \<open>
  C9, as the claim has it, fails both ways. The client that has just connected has an
  empty window, and the mock events are shown. After a delta with the event \<open>D\<close> the
  connection drops: the client is disconnected, and its window, not the mock events,
  is shown.
\<close>

theorem App_events_not_by_connected:
  "platform_run True [Mount, SocketOpened 0] initial_client =
     Some (initial_client\<lparr>connected := True, wsRef := Some 0, sockets := [OPEN]\<rparr>)
   \<and> App_events (initial_client\<lparr>connected := True, wsRef := Some 0, sockets := [OPEN]\<rparr>) mock_sample
       = mock_sample
   \<and> mock_sample \<noteq> events (initial_client\<lparr>connected := True, wsRef := Some 0, sockets := [OPEN]\<rparr>)
   \<and> deliver_frames JSON_parse_sample default_maxEvents [frame_D]
         (initial_client\<lparr>connected := True, wsRef := Some 0, sockets := [OPEN]\<rparr>) =
     Inr (initial_client\<lparr>connected := True, wsRef := Some 0, sockets := [OPEN],
                          latestEvent := event_named ''D'', events := JArr [event_named ''D''],
                          feed := JArr [event_named ''D'']\<rparr>)
   \<and> platform_run True [SocketClosed 0]
         (initial_client\<lparr>connected := True, wsRef := Some 0, sockets := [OPEN],
                          latestEvent := event_named ''D'', events := JArr [event_named ''D''],
                          feed := JArr [event_named ''D'']\<rparr>) =
     Some (initial_client\<lparr>connected := False, wsRef := Some 0, sockets := [CLOSED],
                          latestEvent := event_named ''D'', events := JArr [event_named ''D''],
                          feed := JArr [event_named ''D''],
                          reconnectTimer := Some 0, timers := [0], timer_seq := 1\<rparr>)
   \<and> App_events (initial_client\<lparr>connected := False, wsRef := Some 0, sockets := [CLOSED],
                          latestEvent := event_named ''D'', events := JArr [event_named ''D''],
                          feed := JArr [event_named ''D''],
                          reconnectTimer := Some 0, timers := [0], timer_seq := 1\<rparr>) mock_sample
       = JArr [event_named ''D'']
   \<and> JArr [event_named ''D''] \<noteq> mock_sample"
  by (simp add: initial_client_def connect_def wsRef_is_open_def ws_onopen_def clear_reconnect_def
      ws_onclose_def schedule_reconnect_def App_events_def mock_sample_def
      ws_onmessage_def stream_frame_def prepend_updater_def js_or_def event_named_def
      slice0_def default_maxEvents_def)

section \<open>Properties of rounding\<close>

text \<open>
  The binary exponent is what its name says, rounding to a double within the finite
  range errs by at most \<open>rnd_bound\<close>, and a rounding is settled by naming the exponent
  and the mantissa of the result.
\<close>

lemma bitlen_rat_bounds:
  fixes p :: int
  assumes "0 < p"
  shows "(2::rat) powi (bitlen p - 1) \<le> of_int p" and "(of_int p :: rat) < 2 powi (bitlen p)"
proof -
  from bitlen_bounds [OF assms] have lo: "2 ^ nat (bitlen p - 1) \<le> p" and hi: "p < 2 ^ nat (bitlen p)"
    by simp_all
  from assms have b: "1 \<le> bitlen p"
    by (simp add: bitlen_alt_def)
  from lo have "(of_int (2 ^ nat (bitlen p - 1)) :: rat) \<le> of_int p"
    by (simp only: of_int_le_iff)
  with b show "(2::rat) powi (bitlen p - 1) \<le> of_int p"
    by (simp add: power_int_nonneg_exp)
  from hi have "(of_int p :: rat) < of_int (2 ^ nat (bitlen p))"
    by (simp only: of_int_less_iff)
  with b show "(of_int p :: rat) < 2 powi (bitlen p)"
    by (simp add: power_int_nonneg_exp)
qed

lemma ilog2_bounds:
  assumes "0 < a"
  shows "2 powi (ilog2 a) \<le> a" and "a < 2 powi (ilog2 a + 1)"
proof -
  obtain p q where pq: "quotient_of a = (p, q)"
    by (cases "quotient_of a")
  then have q: "0 < q" and a: "a = of_int p / of_int q"
    by (simp_all add: quotient_of_denom_pos quotient_of_div)
  with assms have p: "0 < p"
    by (simp add: zero_less_divide_iff)
  let ?k = "bitlen p - bitlen q"
  note bp = bitlen_rat_bounds [OF p] and bq = bitlen_rat_bounds [OF q]
  have qpos: "(0::rat) < of_int q" using q by simp
  have up: "a < 2 powi (?k + 1)"
  proof -
    have "of_int p < (2::rat) powi (bitlen p)" by (rule bp(2))
    also have "\<dots> = 2 powi (?k + 1) * 2 powi (bitlen q - 1)"
      by (simp flip: power_int_add)
    also have "\<dots> \<le> 2 powi (?k + 1) * of_int q"
      using bq(1) by (intro mult_left_mono) simp_all
    finally show ?thesis
      using qpos by (simp add: a pos_divide_less_eq)
  qed
  have low: "2 powi (?k - 1) \<le> a"
  proof -
    have "2 powi (?k - 1) * of_int q \<le> (2::rat) powi (?k - 1) * 2 powi (bitlen q)"
      using bq(2) by (intro mult_left_mono) simp_all
    also have "\<dots> = 2 powi (bitlen p - 1)"
      by (simp flip: power_int_add)
    also have "\<dots> \<le> of_int p" by (rule bp(1))
    finally show ?thesis
      using qpos by (simp add: a pos_le_divide_eq)
  qed
  have mid: "a < 2 powi ?k" if "\<not> 2 powi ?k \<le> a"
    using that by simp
  show "2 powi (ilog2 a) \<le> a"
    using low by (auto simp: ilog2_def pq Let_def)
  show "a < 2 powi (ilog2 a + 1)"
    using up mid by (auto simp: ilog2_def pq Let_def)
qed

lemma pow2_less_iff: "(2::rat) powi m < 2 powi n \<longleftrightarrow> m < n"
proof
  assume lt: "(2::rat) powi m < 2 powi n"
  show "m < n"
  proof (rule ccontr)
    assume "\<not> m < n"
    then have "n \<le> m" by simp
    then have "(2::rat) powi n \<le> 2 powi m"
      by (intro power_int_increasing) simp_all
    with lt show False by simp
  qed
next
  assume "m < n"
  then show "(2::rat) powi m < 2 powi n"
    by (intro power_int_strict_increasing) simp_all
qed

lemma pow2_le_iff: "(2::rat) powi m \<le> 2 powi n \<longleftrightarrow> m \<le> n"
  using pow2_less_iff [of n m] by (simp add: not_less [symmetric])

lemma ilog2_unique:
  assumes "0 < a" and "2 powi k \<le> a" and "a < 2 powi (k + 1)"
  shows "ilog2 a = k"
proof -
  note b = ilog2_bounds [OF assms(1)]
  have "(2::rat) powi (ilog2 a) < 2 powi (k + 1)"
    using b(1) assms(3) by simp
  then have "ilog2 a < k + 1"
    by (simp add: pow2_less_iff)
  moreover have "(2::rat) powi k < 2 powi (ilog2 a + 1)"
    using b(2) assms(2) by simp
  then have "k < ilog2 a + 1"
    by (simp add: pow2_less_iff)
  ultimately show ?thesis by simp
qed


lemma round_half_even_error: "\<bar>of_int (round_half_even r) - r\<bar> \<le> 1 / 2"
proof -
  have "of_int \<lfloor>r\<rfloor> \<le> r" and "r < of_int \<lfloor>r\<rfloor> + 1"
    by linarith+
  then show ?thesis
    by (auto simp: round_half_even_def Let_def abs_le_iff)
qed

lemma round_half_even_nonneg: "0 \<le> r \<Longrightarrow> 0 \<le> round_half_even r"
  by (auto simp: round_half_even_def Let_def)

lemma round_half_even_eqI:
  assumes "\<bar>r - of_int n\<bar> < 1 / 2"
  shows "round_half_even r = n"
proof (cases "of_int n \<le> r")
  case True
  with assms have "\<lfloor>r\<rfloor> = n"
    by (intro floor_unique) (simp_all add: abs_less_iff)
  with True assms show ?thesis
    by (simp add: round_half_even_def Let_def abs_less_iff)
next
  case False
  with assms have f: "\<lfloor>r\<rfloor> = n - 1"
    by (intro floor_unique) (simp_all add: abs_less_iff)
  with False assms show ?thesis
    by (simp add: round_half_even_def Let_def abs_less_iff)
qed

lemma round_half_even_small:
  assumes "0 \<le> r" and "r \<le> 1 / 2"
  shows "round_half_even r = 0"
proof -
  from assms have "\<lfloor>r\<rfloor> = 0"
    by (intro floor_unique) simp_all
  with assms show ?thesis
    by (simp add: round_half_even_def Let_def)
qed

lemma pow2_add: "(2::rat) powi (a + b) = 2 powi a * 2 powi b"
  by (simp add: power_int_add)

lemma rnd_mag_nonneg:
  assumes "0 \<le> a"
  shows "0 \<le> rnd_mag a"
proof -
  from assms have "0 \<le> a / 2 powi rnd_exp a"
    by simp
  then have "0 \<le> round_half_even (a / 2 powi rnd_exp a)"
    by (rule round_half_even_nonneg)
  then show ?thesis
    by (simp add: rnd_mag_def)
qed

lemma rnd_mag_error:
  assumes "0 < a"
  shows "\<bar>rnd_mag a - a\<bar> \<le> rnd_bound a"
proof -
  define e where "e = rnd_exp a"
  define n where "n = round_half_even (a / 2 powi e)"
  have pe: "(0::rat) < 2 powi e" by simp
  have "\<bar>of_int n - a / 2 powi e\<bar> \<le> 1 / 2"
    unfolding n_def by (rule round_half_even_error)
  then have "\<bar>of_int n - a / 2 powi e\<bar> * 2 powi e \<le> 1 / 2 * 2 powi e"
    using pe by (intro mult_right_mono) simp_all
  also have "\<bar>of_int n - a / 2 powi e\<bar> * 2 powi e = \<bar>(of_int n - a / 2 powi e) * 2 powi e\<bar>"
    using pe by (simp add: abs_mult)
  also have "(of_int n - a / 2 powi e) * 2 powi e = of_int n * 2 powi e - a"
    using pe by (simp add: field_simps)
  finally have grid: "\<bar>rnd_mag a - a\<bar> \<le> 1 / 2 * 2 powi e"
    by (simp add: rnd_mag_def e_def n_def)
  have half: "1 / 2 * (2::rat) powi e = 2 powi (e + (- 1))"
    by (simp only: pow2_add) simp
  have "(2::rat) powi (e + (- 1)) \<le> rnd_bound a"
  proof (cases "ilog2 a - 52 \<le> - 1074")
    case True
    then have "e + (- 1) = - 1075" by (simp add: e_def rnd_exp_def)
    then have "(2::rat) powi (e + (- 1)) = 2 powi (- 1075)" by (simp only:)
    also have "\<dots> \<le> \<bar>a\<bar> * 2 powi (- 53) + 2 powi (- 1075)" by simp
    finally show ?thesis by (simp only: rnd_bound_def)
  next
    case False
    then have "e + (- 1) = ilog2 a + (- 53)" by (simp add: e_def rnd_exp_def)
    then have "(2::rat) powi (e + (- 1)) = 2 powi (ilog2 a + (- 53))" by (simp only:)
    also have "\<dots> = 2 powi (ilog2 a) * 2 powi (- 53)" by (rule pow2_add)
    also have "\<dots> \<le> a * 2 powi (- 53)"
      using ilog2_bounds(1) [OF assms] by (intro mult_right_mono) simp_all
    also have "\<dots> \<le> \<bar>a\<bar> * 2 powi (- 53) + 2 powi (- 1075)"
      using assms by simp
    finally show ?thesis by (simp only: rnd_bound_def)
  qed
  with grid half show ?thesis
    by simp
qed

lemma rnd_error:
  assumes "\<bar>x\<bar> \<le> 2 powi 1023"
  shows "is_finite (rnd x)" and "\<bar>dval (rnd x) - x\<bar> \<le> rnd_bound x"
proof -
  have both: "is_finite (rnd x) \<and> \<bar>dval (rnd x) - x\<bar> \<le> rnd_bound x"
  proof (cases "x = 0")
    case True
    then show ?thesis by (simp add: rnd_def rnd_bound_def)
  next
    case False
    define v where "v = rnd_mag \<bar>x\<bar>"
    from False have a: "0 < \<bar>x\<bar>" by simp
    have err: "\<bar>v - \<bar>x\<bar>\<bar> \<le> rnd_bound x"
      using rnd_mag_error [OF a] by (simp add: v_def rnd_bound_def)
    have v0: "0 \<le> v"
      unfolding v_def by (intro rnd_mag_nonneg) simp
    have "v \<le> \<bar>x\<bar> + rnd_bound x"
      using err by (simp add: abs_le_iff)
    also have "\<dots> \<le> 2 powi 1023 + (2 powi 1023 * 2 powi (- 53) + 2 powi (- 1075))"
      unfolding rnd_bound_def using assms by (intro add_mono mult_right_mono) simp_all
    also have "\<dots> < 2 powi 1024"
      by simp
    finally have small: "\<not> 2 powi 1024 \<le> v" by simp
    have r: "rnd x = (if v = 0 then (if x < 0 then NegZero else Fin 0)
                     else Fin (if x < 0 then - v else v))"
      using False small unfolding rnd_def v_def [symmetric] by simp
    have "\<bar>dval (rnd x) - x\<bar> = \<bar>v - \<bar>x\<bar>\<bar>"
    proof (cases "x < 0")
      case True
      then have "\<bar>- v - x\<bar> = \<bar>v - \<bar>x\<bar>\<bar>" by (simp add: abs_minus_commute)
      with True show ?thesis by (simp add: r)
    next
      case False
      then show ?thesis by (auto simp: r)
    qed
    with err show ?thesis by (auto simp: r)
  qed
  from both show "is_finite (rnd x)" and "\<bar>dval (rnd x) - x\<bar> \<le> rnd_bound x"
    by simp_all
qed

lemma rnd_exponent:
  assumes "0 < x" and "- 1074 \<le> e"
    and "(e = - 1074 \<and> x < 2 powi (- 1021)) \<or> (2 powi (e + 52) \<le> x \<and> x < 2 powi (e + 53))"
  shows "rnd_exp x = e"
  using assms(3)
proof
  assume sub: "e = - 1074 \<and> x < 2 powi (- 1021)"
  have "(2::rat) powi (ilog2 x) < 2 powi (- 1021)"
    using ilog2_bounds(1) [OF assms(1)] sub by simp
  then have "ilog2 x < - 1021" by (simp only: pow2_less_iff)
  with sub show ?thesis by (simp add: rnd_exp_def)
next
  assume "2 powi (e + 52) \<le> x \<and> x < 2 powi (e + 53)"
  then have "ilog2 x = e + 52"
    by (intro ilog2_unique [OF assms(1)]) (simp_all add: add.commute add.left_commute)
  with assms(2) show ?thesis by (simp add: rnd_exp_def)
qed

lemma rnd_mag_eqI:
  assumes "0 < x" and "- 1074 \<le> e"
    and "(e = - 1074 \<and> x < 2 powi (- 1021)) \<or> (2 powi (e + 52) \<le> x \<and> x < 2 powi (e + 53))"
    and "\<bar>x / 2 powi e - of_int n\<bar> < 1 / 2"
    and "v = of_int n * 2 powi e"
  shows "rnd_mag x = v"
proof -
  have e: "rnd_exp x = e"
    by (rule rnd_exponent [OF assms(1-3)])
  have n: "round_half_even (x / 2 powi e) = n"
    using assms(4) by (rule round_half_even_eqI)
  show ?thesis
    by (simp only: rnd_mag_def e n assms(5))
qed

lemma rnd_eqI:
  assumes "0 < x" and "- 1074 \<le> e"
    and "(e = - 1074 \<and> x < 2 powi (- 1021)) \<or> (2 powi (e + 52) \<le> x \<and> x < 2 powi (e + 53))"
    and "\<bar>x / 2 powi e - of_int n\<bar> < 1 / 2"
    and "v = of_int n * 2 powi e" and "0 < v" and "v < 2 powi 1024"
  shows "rnd x = Fin v" and "rnd (- x) = Fin (- v)"
proof -
  have m: "rnd_mag x = v"
    by (rule rnd_mag_eqI [OF assms(1-5)])
  show "rnd x = Fin v"
    using assms(1,6,7) by (simp add: rnd_def m)
  show "rnd (- x) = Fin (- v)"
    using assms(1,6,7) by (simp add: rnd_def m)
qed

lemma rnd_tiny:
  assumes "0 < x" and "x \<le> 2 powi (- 1075)"
  shows "rnd x = Fin 0" and "rnd (- x) = NegZero"
proof -
  have "x < 2 powi (- 1021)"
    using assms(2) by simp
  with assms(1) have e: "rnd_exp x = - 1074"
    by (intro rnd_exponent) simp_all
  define r where "r = x / 2 powi (- 1074)"
  have "r \<le> 1 / 2" and "0 \<le> r"
    using assms by (simp_all add: r_def field_simps)
  then have n: "round_half_even r = 0"
    by (intro round_half_even_small)
  have m: "rnd_mag x = 0"
    unfolding rnd_mag_def e r_def [symmetric] n by simp
  show "rnd x = Fin 0"
    using assms(1) by (simp add: rnd_def m)
  show "rnd (- x) = NegZero"
    using assms(1) by (simp add: rnd_def m)
qed

text \<open>
  Rounding does not cross a double: a number that is at most a double rounds to at most
  that double.
\<close>

lemma round_half_even_le:
  assumes "r \<le> of_int M"
  shows "round_half_even r \<le> M"
proof -
  have f: "\<lfloor>r\<rfloor> \<le> M"
    using assms by (simp add: floor_le_iff)
  show ?thesis
  proof (cases "\<lfloor>r\<rfloor> = M")
    case True
    with assms have "r - of_int \<lfloor>r\<rfloor> \<le> 0"
      by simp
    then have "r - of_int \<lfloor>r\<rfloor> < 1 / 2"
      by simp
    with True show ?thesis
      by (simp add: round_half_even_def Let_def)
  next
    case False
    with f have "\<lfloor>r\<rfloor> + 1 \<le> M"
      by simp
    with f show ?thesis
      by (auto simp: round_half_even_def Let_def)
  qed
qed

lemma rnd_exp_le:
  assumes "0 < a" and "a < 2 powi (j + 53)" and "- 1074 \<le> j"
  shows "rnd_exp a \<le> j"
proof -
  have "(2::rat) powi (ilog2 a) < 2 powi (j + 53)"
    using ilog2_bounds(1) [OF assms(1)] assms(2) by (rule le_less_trans)
  then have "ilog2 a < j + 53"
    by (simp only: pow2_less_iff)
  with assms(3) show ?thesis
    by (simp add: rnd_exp_def)
qed

lemma rnd_mag_le:
  assumes "0 < a" and "a \<le> of_int m * 2 powi j" and "rnd_exp a \<le> j"
  shows "rnd_mag a \<le> of_int m * 2 powi j"
proof -
  define e where "e = rnd_exp a"
  define k where "k = nat (j - e)"
  have j: "j = e + int k"
    using assms(3) by (simp add: k_def e_def)
  have pe: "(0::rat) < 2 powi e" by simp
  have grid: "of_int m * (2::rat) powi j = of_int (m * 2 ^ k) * 2 powi e"
    unfolding j by (simp only: pow2_add) (simp add: power_int_def)
  have "a / 2 powi e \<le> of_int (m * 2 ^ k) * 2 powi e / 2 powi e"
    using assms(2) pe unfolding grid by (intro divide_right_mono) simp_all
  then have "a / 2 powi e \<le> of_int (m * 2 ^ k)"
    by simp
  then have "round_half_even (a / 2 powi e) \<le> m * 2 ^ k"
    by (rule round_half_even_le)
  then have "(of_int (round_half_even (a / 2 powi e)) :: rat) \<le> of_int (m * 2 ^ k)"
    by (simp only: of_int_le_iff)
  then have "of_int (round_half_even (a / 2 powi e)) * 2 powi e \<le> of_int (m * 2 ^ k) * (2::rat) powi e"
    using pe by (intro mult_right_mono) simp_all
  then show ?thesis
    unfolding grid rnd_mag_def e_def .
qed

lemma rnd_le:
  assumes "0 \<le> x" and "x \<le> of_int m * 2 powi j" and "- 1074 \<le> j" and "j \<le> 971"
    and "of_int m * (2::rat) powi j < 2 powi (j + 53)"
  shows "is_finite (rnd x)" and "0 \<le> dval (rnd x)" and "dval (rnd x) \<le> of_int m * 2 powi j"
    and "\<bar>dval (rnd x) - x\<bar> \<le> rnd_bound x"
proof -
  have all: "is_finite (rnd x) \<and> 0 \<le> dval (rnd x) \<and> dval (rnd x) \<le> of_int m * 2 powi j
      \<and> \<bar>dval (rnd x) - x\<bar> \<le> rnd_bound x"
  proof (cases "x = 0")
    case True
    with assms(2) show ?thesis
      by (simp add: rnd_def rnd_bound_def)
  next
    case False
    with assms(1) have x: "0 < x" by simp
    define v where "v = rnd_mag x"
    have "x < 2 powi (j + 53)"
      using assms(2,5) by (rule le_less_trans)
    with x have "rnd_exp x \<le> j"
      using assms(3) by (intro rnd_exp_le)
    with x assms(2) have le: "v \<le> of_int m * 2 powi j"
      unfolding v_def by (intro rnd_mag_le)
    also have "\<dots> < 2 powi (j + 53)"
      by (rule assms(5))
    also have "\<dots> \<le> 2 powi 1024"
    proof -
      have "j + 53 \<le> 1024"
        using assms(4) by simp
      then show ?thesis
        by (simp only: pow2_le_iff)
    qed
    finally have small: "\<not> 2 powi 1024 \<le> v" by simp
    have v0: "0 \<le> v"
      unfolding v_def using assms(1) by (rule rnd_mag_nonneg)
    have err: "\<bar>v - x\<bar> \<le> rnd_bound x"
      unfolding v_def by (rule rnd_mag_error [OF x])
    have r: "rnd x = Fin v"
      using x small v0 by (auto simp: rnd_def v_def [symmetric])
    from le v0 err show ?thesis
      by (simp add: r)
  qed
  from all show "is_finite (rnd x)" and "0 \<le> dval (rnd x)"
    and "dval (rnd x) \<le> of_int m * 2 powi j" and "\<bar>dval (rnd x) - x\<bar> \<le> rnd_bound x"
    by simp_all
qed

lemma rnd_le_int:
  assumes "0 \<le> x" and "x \<le> of_int m" and "m < 2 ^ 53"
  shows "is_finite (rnd x)" and "0 \<le> dval (rnd x)" and "dval (rnd x) \<le> of_int m"
    and "\<bar>dval (rnd x) - x\<bar> \<le> rnd_bound x"
proof -
  have "(of_int m :: rat) < of_int (2 ^ 53)"
    using assms(3) by (simp only: of_int_less_iff)
  then have "of_int m * (2::rat) powi 0 < 2 powi (0 + 53)"
    by simp
  moreover have "x \<le> of_int m * 2 powi 0"
    using assms(2) by simp
  ultimately have "is_finite (rnd x) \<and> 0 \<le> dval (rnd x) \<and> dval (rnd x) \<le> of_int m * 2 powi 0
      \<and> \<bar>dval (rnd x) - x\<bar> \<le> rnd_bound x"
    using assms(1) by (intro conjI rnd_le [where m = m and j = 0]) simp_all
  then show "is_finite (rnd x)" and "0 \<le> dval (rnd x)" and "dval (rnd x) \<le> of_int m"
    and "\<bar>dval (rnd x) - x\<bar> \<le> rnd_bound x"
    by simp_all
qed

lemma rnd_le_max:
  assumes "0 \<le> x" and "x \<le> max_double"
  shows "is_finite (rnd x)" and "0 \<le> dval (rnd x)" and "dval (rnd x) \<le> max_double"
    and "\<bar>dval (rnd x) - x\<bar> \<le> rnd_bound x"
proof -
  have m: "max_double = of_int (2 ^ 53 - 1) * 2 powi 971"
    by (simp add: max_double_def)
  have "of_int (2 ^ 53 - 1) * (2::rat) powi 971 < 2 powi (971 + 53)"
    by simp
  moreover have "x \<le> of_int (2 ^ 53 - 1) * 2 powi 971"
    using assms(2) unfolding m .
  ultimately have "is_finite (rnd x) \<and> 0 \<le> dval (rnd x)
      \<and> dval (rnd x) \<le> of_int (2 ^ 53 - 1) * 2 powi 971
      \<and> \<bar>dval (rnd x) - x\<bar> \<le> rnd_bound x"
    using assms(1) by (intro conjI rnd_le [where m = "2 ^ 53 - 1" and j = 971]) simp_all
  then show "is_finite (rnd x)" and "0 \<le> dval (rnd x)" and "dval (rnd x) \<le> max_double"
    and "\<bar>dval (rnd x) - x\<bar> \<le> rnd_bound x"
    unfolding m by simp_all
qed

text \<open>The operators on finite numbers, away from overflow.\<close>

lemma is_finite_cases:
  assumes "is_finite a"
  obtains x where "a = Fin x" | "a = NegZero"
  using assms by (cases a) auto

lemma is_zero_iff: "is_finite a \<Longrightarrow> is_zero a \<longleftrightarrow> dval a = 0"
  by (cases a) auto

lemma dval_zero_of [simp]: "dval (zero_of s) = 0" "is_finite (zero_of s)"
  by (simp_all add: zero_of_def)

lemma dneg_finite [simp]: "is_finite (dneg a) = is_finite a" "dval (dneg a) = - dval a"
  by (cases a; simp)+

lemma rnd_bound_0 [simp]: "0 \<le> rnd_bound x"
  by (simp add: rnd_bound_def)

lemma dadd_error:
  assumes "is_finite a" and "is_finite b" and "\<bar>dval a + dval b\<bar> \<le> 2 powi 1023"
  shows "is_finite (dadd a b)"
    and "\<bar>dval (dadd a b) - (dval a + dval b)\<bar> \<le> rnd_bound (dval a + dval b)"
proof -
  have eq: "dadd a b = (if dval a + dval b = 0 then zero_of (sign_bit a \<and> sign_bit b)
                        else rnd (dval a + dval b))"
    using assms(1,2) by (cases a; cases b) simp_all
  show "is_finite (dadd a b)"
    using rnd_error(1) [OF assms(3)] by (simp add: eq)
  show "\<bar>dval (dadd a b) - (dval a + dval b)\<bar> \<le> rnd_bound (dval a + dval b)"
    using rnd_error(2) [OF assms(3)] by (simp add: eq)
qed

lemma dsub_error:
  assumes "is_finite a" and "is_finite b" and "\<bar>dval a - dval b\<bar> \<le> 2 powi 1023"
  shows "is_finite (dsub a b)"
    and "\<bar>dval (dsub a b) - (dval a - dval b)\<bar> \<le> rnd_bound (dval a - dval b)"
  using dadd_error [of a "dneg b"] assms by (simp_all add: dsub_def)

lemma dmul_error:
  assumes "is_finite a" and "is_finite b" and "\<bar>dval a * dval b\<bar> \<le> 2 powi 1023"
  shows "is_finite (dmul a b)"
    and "\<bar>dval (dmul a b) - dval a * dval b\<bar> \<le> rnd_bound (dval a * dval b)"
proof -
  have nn: "a \<noteq> NaN" "b \<noteq> NaN" using assms(1,2) by auto
  have eq: "dmul a b = (if dval a * dval b = 0 then zero_of (sign_bit a \<noteq> sign_bit b)
                        else rnd (dval a * dval b))"
    using assms(1,2) nn by (simp add: dmul_def is_zero_iff)
  show "is_finite (dmul a b)"
    using rnd_error(1) [OF assms(3)] by (simp add: eq)
  show "\<bar>dval (dmul a b) - dval a * dval b\<bar> \<le> rnd_bound (dval a * dval b)"
    using rnd_error(2) [OF assms(3)] by (simp add: eq)
qed

lemma ddiv_error:
  assumes "is_finite a" and "is_finite b" and "dval b \<noteq> 0"
    and "\<bar>dval a / dval b\<bar> \<le> 2 powi 1023"
  shows "is_finite (ddiv a b)"
    and "\<bar>dval (ddiv a b) - dval a / dval b\<bar> \<le> rnd_bound (dval a / dval b)"
proof -
  have nn: "a \<noteq> NaN" "b \<noteq> NaN" using assms(1,2) by auto
  have eq: "ddiv a b = (if dval a = 0 then zero_of (sign_bit a \<noteq> sign_bit b)
                        else rnd (dval a / dval b))"
    using assms(1,2,3) nn by (simp add: ddiv_def is_zero_iff)
  show "is_finite (ddiv a b)"
    using rnd_error(1) [OF assms(4)] by (simp add: eq)
  show "\<bar>dval (ddiv a b) - dval a / dval b\<bar> \<le> rnd_bound (dval a / dval b)"
    using rnd_error(2) [OF assms(4)] by (simp add: eq)
qed

lemma dlt_irrefl [simp]: "\<not> dlt a a"
  by (cases a) simp_all

lemma dlt_trans: "dlt a b \<Longrightarrow> dlt b c \<Longrightarrow> dlt a c"
  by (cases a; cases b; cases c) auto

lemma rnd_bound_le:
  assumes "\<bar>x\<bar> \<le> c"
  shows "rnd_bound x \<le> c * 2 powi (- 53) + 2 powi (- 1075)"
  unfolding rnd_bound_def using assms by (intro add_mono mult_right_mono) simp_all

lemma dadd_le_int:
  assumes "is_finite a" and "is_finite b"
    and "0 \<le> dval a + dval b" and "dval a + dval b \<le> of_int m" and "m < 2 ^ 53"
  shows "is_finite (dadd a b)" and "0 \<le> dval (dadd a b)" and "dval (dadd a b) \<le> of_int m"
    and "\<bar>dval (dadd a b) - (dval a + dval b)\<bar> \<le> rnd_bound (dval a + dval b)"
proof -
  have eq: "dadd a b = (if dval a + dval b = 0 then zero_of (sign_bit a \<and> sign_bit b)
                        else rnd (dval a + dval b))"
    using assms(1,2) by (cases a; cases b) simp_all
  note r = rnd_le_int [OF assms(3,4,5)]
  show "is_finite (dadd a b)"
    using r(1) by (simp add: eq)
  show "0 \<le> dval (dadd a b)"
    using r(2) by (simp add: eq)
  show "dval (dadd a b) \<le> of_int m"
    using r(3) assms(3,4) by (simp add: eq)
  show "\<bar>dval (dadd a b) - (dval a + dval b)\<bar> \<le> rnd_bound (dval a + dval b)"
    using r(4) by (simp add: eq)
qed

lemma ddiv_le_1:
  assumes "is_finite a" and "is_finite b" and "0 \<le> dval a" and "dval a \<le> dval b"
    and "0 < dval b"
  shows "is_finite (ddiv a b)" and "0 \<le> dval (ddiv a b)" and "dval (ddiv a b) \<le> 1"
    and "\<bar>dval (ddiv a b) - dval a / dval b\<bar> \<le> rnd_bound (dval a / dval b)"
proof -
  have nn: "a \<noteq> NaN" "b \<noteq> NaN" using assms(1,2) by auto
  have eq: "ddiv a b = (if dval a = 0 then zero_of (sign_bit a \<noteq> sign_bit b)
                        else rnd (dval a / dval b))"
    using assms(1,2,5) nn by (simp add: ddiv_def is_zero_iff)
  have "0 \<le> dval a / dval b" and "dval a / dval b \<le> of_int 1"
    using assms(3,4,5) by simp_all
  then have r: "is_finite (rnd (dval a / dval b))" "0 \<le> dval (rnd (dval a / dval b))"
    "dval (rnd (dval a / dval b)) \<le> of_int 1"
    "\<bar>dval (rnd (dval a / dval b)) - dval a / dval b\<bar> \<le> rnd_bound (dval a / dval b)"
    by (rule rnd_le_int; simp)+
  show "is_finite (ddiv a b)"
    using r(1) by (simp add: eq)
  show "0 \<le> dval (ddiv a b)"
    using r(2) by (simp add: eq)
  show "dval (ddiv a b) \<le> 1"
    using r(3) by (simp add: eq)
  show "\<bar>dval (ddiv a b) - dval a / dval b\<bar> \<le> rnd_bound (dval a / dval b)"
    using r(4) by (simp add: eq)
qed

lemma dmul_le_max:
  assumes "is_finite a" and "is_finite b"
    and "0 \<le> dval a * dval b" and "dval a * dval b \<le> max_double"
  shows "is_finite (dmul a b)"
    and "\<bar>dval (dmul a b) - dval a * dval b\<bar> \<le> rnd_bound (dval a * dval b)"
proof -
  have nn: "a \<noteq> NaN" "b \<noteq> NaN" using assms(1,2) by auto
  have eq: "dmul a b = (if dval a * dval b = 0 then zero_of (sign_bit a \<noteq> sign_bit b)
                        else rnd (dval a * dval b))"
    using assms(1,2) nn by (simp add: dmul_def is_zero_iff)
  note r = rnd_le_max [OF assms(3,4)]
  show "is_finite (dmul a b)"
    using r(1) by (simp add: eq)
  show "\<bar>dval (dmul a b) - dval a * dval b\<bar> \<le> rnd_bound (dval a * dval b)"
    using r(4) by (simp add: eq)
qed

text \<open>The roundings of the numbers that the examples meet.\<close>

lemma rnd_1: "rnd 1 = Fin 1"
  by (rule rnd_eqI(1) [where e = "- 52" and n = 4503599627370496 and x = "1"]) simp_all

lemma rnd_3: "rnd 3 = Fin 3"
  by (rule rnd_eqI(1) [where e = "- 51" and n = 6755399441055744 and x = "3"]) simp_all

lemma rnd_4: "rnd 4 = Fin 4"
  by (rule rnd_eqI(1) [where e = "- 50" and n = 4503599627370496 and x = "4"]) simp_all

lemma rnd_12: "rnd 12 = Fin 12"
  by (rule rnd_eqI(1) [where e = "- 49" and n = 6755399441055744 and x = "12"]) simp_all

lemma rnd_16: "rnd 16 = Fin 16"
  by (rule rnd_eqI(1) [where e = "- 48" and n = 4503599627370496 and x = "16"]) simp_all

lemma rnd_30: "rnd 30 = Fin 30"
  by (rule rnd_eqI(1) [where e = "- 48" and n = 8444249301319680 and x = "30"]) simp_all

lemma rnd_45: "rnd 45 = Fin 45"
  by (rule rnd_eqI(1) [where e = "- 47" and n = 6333186975989760 and x = "45"]) simp_all

lemma rnd_90: "rnd 90 = Fin 90"
  by (rule rnd_eqI(1) [where e = "- 46" and n = 6333186975989760 and x = "90"]) simp_all

lemma rnd_100: "rnd 100 = Fin 100"
  by (rule rnd_eqI(1) [where e = "- 46" and n = 7036874417766400 and x = "100"]) simp_all

lemma rnd_180: "rnd 180 = Fin 180"
  by (rule rnd_eqI(1) [where e = "- 45" and n = 6333186975989760 and x = "180"]) simp_all

lemma rnd_185: "rnd 185 = Fin 185"
  by (rule rnd_eqI(1) [where e = "- 45" and n = 6509108836433920 and x = "185"]) simp_all

lemma rnd_quarter: "rnd (1 / 4) = Fin (1 / 4)"
  by (rule rnd_eqI(1) [where e = "- 54" and n = 4503599627370496 and x = "1 / 4"]) simp_all

lemma rnd_half: "rnd (1 / 2) = Fin (1 / 2)"
  by (rule rnd_eqI(1) [where e = "- 53" and n = 4503599627370496 and x = "1 / 2"]) simp_all

lemma rnd_37_72: "rnd (37 / 72) = Fin (1157174904254919 / 2251799813685248)"
  by (rule rnd_eqI(1) [where e = "- 53" and n = 4628699617019676 and x = "37 / 72"]) simp_all

lemma rnd_x5: "rnd (52072870691471355 / 140737488355328) = Fin (6509108836433919 / 17592186044416)"
  by (rule rnd_eqI(1) [where e = "- 44" and n = 6509108836433919 and x = "52072870691471355 / 140737488355328"]) simp_all

lemma rnd_dx5: "rnd (- (316659348799487 / 17592186044416)) = Fin (- (316659348799487 / 17592186044416))"
  by (rule rnd_eqI(2) [where e = "- 48" and n = 5066549580791792 and x = "316659348799487 / 17592186044416"]) simp_all

lemmas rnd_values = rnd_1 rnd_3 rnd_4 rnd_12 rnd_16 rnd_30 rnd_45 rnd_90 rnd_100 rnd_180 rnd_185
  rnd_quarter rnd_half rnd_37_72 rnd_x5 rnd_dx5

section \<open>Properties of the projection\<close>

text \<open>
  Scaling a number between 0 and \<open>K\<close> by a canvas dimension and back: dividing by \<open>K\<close>,
  multiplying by \<open>w\<close>, dividing by \<open>w\<close> and multiplying by \<open>K\<close> rounds four times. The
  product with \<open>w\<close> is at most \<open>w\<close> and does not overflow, and for a normal \<open>w\<close> its
  rounding error, divided by \<open>w\<close>, is at most a unit in the last place of 1.
\<close>

lemma scale_round_trip:
  fixes K :: rat
  assumes s: "is_finite s" and w: "is_finite w"
    and K: "1 \<le> K" "K \<le> 360" and S: "0 \<le> dval s" "dval s \<le> K"
    and W: "2 powi (- 1022) \<le> dval w" "dval w \<le> max_double"
  defines "t \<equiv> dmul (ddiv (dmul (ddiv s (Fin K)) w) w) (Fin K)"
  shows "is_finite t" and "\<bar>dval t - dval s\<bar> \<le> K * 2 powi (- 49)"
proof -
  define u :: rat where "u = 2 powi (- 53)"
  define \<eta> :: rat where "\<eta> = 2 powi (- 1075)"
  have small: "0 < u" "u \<le> 1 / 1000" "0 < \<eta>" "\<eta> \<le> u / 1000"
    by (simp_all add: u_def \<eta>_def)
  have big: "(2::rat) \<le> 2 powi 1023" "(720::rat) \<le> 2 powi 1023"
    by simp_all
  have bound: "rnd_bound x \<le> c * u + \<eta>" if "\<bar>x\<bar> \<le> c" for x c
    unfolding u_def \<eta>_def using that by (rule rnd_bound_le)
  define S where "S = dval s"
  define Wd where "Wd = dval w"
  have K0: "0 < K" using K(1) by simp
  have W0: "0 < Wd"
    unfolding Wd_def using W(1) by (rule less_le_trans [rotated]) simp
  define X where "X = S / K"
  have X: "0 \<le> X" "X \<le> 1"
    using S K0 by (simp_all add: X_def S_def)
  then have X1: "\<bar>X\<bar> \<le> 1"
    by simp
  \<comment> \<open>the division by \<open>K\<close>\<close>
  define b where "b = ddiv s (Fin K)"
  define B where "B = dval b"
  have b: "is_finite b" and B: "0 \<le> B" "B \<le> 1" and "\<bar>B - X\<bar> \<le> rnd_bound X"
    unfolding b_def B_def X_def S_def
    using ddiv_le_1 [of s "Fin K"] s S K0 by simp_all
  with bound [OF X1] have Berr: "\<bar>B - X\<bar> \<le> u + \<eta>"
    by simp
  \<comment> \<open>the multiplication by the width\<close>
  define c where "c = dmul b w"
  define C where "C = dval c"
  have BW0: "0 \<le> B * Wd"
    using B(1) W0 by simp
  have BW: "B * Wd \<le> Wd"
    using B(2) W0 by simp
  have "B * Wd \<le> max_double"
    using BW W(2) unfolding Wd_def by (rule order_trans)
  with BW0 b w have c: "is_finite c" and "\<bar>C - B * Wd\<bar> \<le> rnd_bound (B * Wd)"
    unfolding c_def C_def B_def Wd_def
    using dmul_le_max [of b w] by simp_all
  moreover have "\<bar>B * Wd\<bar> \<le> Wd"
    using BW BW0 by simp
  note bound [OF this]
  ultimately have "\<bar>C - B * Wd\<bar> \<le> Wd * u + \<eta>"
    by simp
  then have "\<bar>C - B * Wd\<bar> / Wd \<le> (Wd * u + \<eta>) / Wd"
    using W0 by (intro divide_right_mono) simp_all
  moreover have "\<bar>C - B * Wd\<bar> / Wd = \<bar>C / Wd - B\<bar>"
  proof -
    have "C / Wd - B = (C - B * Wd) / Wd"
      using W0 by (simp add: field_simps)
    then show ?thesis
      using W0 by (simp add: abs_divide)
  qed
  moreover have "(Wd * u + \<eta>) / Wd = u + \<eta> / Wd"
    using W0 by (simp add: field_simps)
  moreover have "\<eta> / Wd \<le> u"
  proof -
    have "\<eta> / Wd \<le> \<eta> / 2 powi (- 1022)"
      using W(1) small(3) by (intro divide_left_mono) (simp_all add: Wd_def)
    also have "\<dots> = u"
      by (simp add: \<eta>_def u_def)
    finally show ?thesis .
  qed
  ultimately have Cerr: "\<bar>C / Wd - B\<bar> \<le> 2 * u"
    by linarith
  with B small have C2: "\<bar>C / Wd\<bar> \<le> 2"
    by linarith
  \<comment> \<open>the division by the width\<close>
  define d where "d = ddiv c w"
  define D where "D = dval d"
  have "\<bar>dval c / dval w\<bar> \<le> 2 powi 1023"
    using C2 big(1) by (simp add: C_def Wd_def)
  with c w W0 have d: "is_finite d" and "\<bar>D - C / Wd\<bar> \<le> rnd_bound (C / Wd)"
    unfolding d_def D_def C_def Wd_def
    using ddiv_error [of c w] by simp_all
  with bound [OF C2] have "\<bar>D - C / Wd\<bar> \<le> 2 * u + \<eta>"
    by simp
  with Cerr Berr have Derr: "\<bar>D - X\<bar> \<le> 5 * u + 2 * \<eta>"
    by linarith
  with X small have D2: "\<bar>D\<bar> \<le> 2"
    by linarith
  \<comment> \<open>the multiplication by \<open>K\<close>\<close>
  have DK: "\<bar>D * K\<bar> \<le> 2 * K"
    using D2 K0 by (simp add: abs_mult mult_right_mono)
  also have "\<dots> \<le> 720"
    using K(2) by simp
  also note big(2)
  finally have "\<bar>dval d * dval (Fin K)\<bar> \<le> 2 powi 1023"
    by (simp add: D_def)
  with d have t: "is_finite t" and "\<bar>dval t - D * K\<bar> \<le> rnd_bound (D * K)"
    unfolding t_def d_def [symmetric] c_def [symmetric] b_def [symmetric] D_def
    using dmul_error [of d "Fin K"] by simp_all
  with bound [OF DK] have Eerr: "\<bar>dval t - D * K\<bar> \<le> 2 * K * u + \<eta>"
    by simp
  have "K * \<bar>D - X\<bar> \<le> K * (5 * u + 2 * \<eta>)"
    using Derr K0 by (intro mult_left_mono) simp_all
  moreover have "K * \<bar>D - X\<bar> = \<bar>D * K - S\<bar>"
  proof -
    have "D * K - S = K * (D - X)"
      using K0 by (simp add: X_def field_simps)
    then show ?thesis
      using K0 by (simp add: abs_mult)
  qed
  ultimately have "\<bar>D * K - S\<bar> \<le> K * (5 * u + 2 * \<eta>)"
    by simp
  with Eerr have "\<bar>dval t - S\<bar> \<le> 2 * K * u + \<eta> + K * (5 * u + 2 * \<eta>)"
    by linarith
  also have "\<dots> \<le> K * (7 * u + 3 * \<eta>)"
  proof -
    have "\<eta> \<le> K * \<eta>"
      using K(1) small(3) by simp
    then show ?thesis
      by (simp add: algebra_simps)
  qed
  also have "\<dots> \<le> K * (16 * u)"
    using K0 small by (intro mult_left_mono) simp_all
  also have "16 * u = 2 powi (- 49)"
    by (simp add: u_def)
  finally show "\<bar>dval t - dval s\<bar> \<le> K * 2 powi (- 49)"
    by (simp add: S_def)
  show "is_finite t" by (rule t)
qed

lemma lon_round_trip:
  assumes lo: "is_finite lo" and w: "is_finite w"
    and L: "- 180 \<le> dval lo" "dval lo \<le> 180"
    and W: "2 powi (- 1022) \<le> dval w" "dval w \<le> max_double"
  defines "lo' \<equiv> dsub (dmul (ddiv (lonToX lo w) w) (Fin 360)) (Fin 180)"
  shows "is_finite lo'" and "\<bar>dval lo' - dval lo\<bar> \<le> 1 / 10 ^ 12"
proof -
  define u :: rat where "u = 2 powi (- 53)"
  define \<eta> :: rat where "\<eta> = 2 powi (- 1075)"
  define d :: rat where "d = 360 * 2 powi (- 49)"
  have small: "0 < u" "0 < \<eta>" "902 * u + 2 * \<eta> + d \<le> 1 / 10 ^ 12"
    "d \<le> 1" "360 * u + \<eta> \<le> 1"
    by (simp_all add: u_def \<eta>_def d_def)
  have big: "(542::rat) \<le> 2 powi 1023"
    by simp
  have bound: "rnd_bound x \<le> c * u + \<eta>" if "\<bar>x\<bar> \<le> c" for x c
    unfolding u_def \<eta>_def using that by (rule rnd_bound_le)
  define s where "s = dadd lo (Fin 180)"
  have sum: "0 \<le> dval lo + dval (Fin 180)" "dval lo + dval (Fin 180) \<le> of_int 360"
    using L by simp_all
  then have sum': "\<bar>dval lo + dval (Fin 180)\<bar> \<le> 360"
    by simp
  have s: "is_finite s" and S: "0 \<le> dval s" "dval s \<le> 360"
    and "\<bar>dval s - (dval lo + dval (Fin 180))\<bar> \<le> rnd_bound (dval lo + dval (Fin 180))"
    unfolding s_def using dadd_le_int [where a = lo and b = "Fin 180" and m = 360] lo sum
    by simp_all
  with bound [OF sum'] have Serr: "\<bar>dval s - (dval lo + 180)\<bar> \<le> 360 * u + \<eta>"
    by simp
  define t where "t = dmul (ddiv (dmul (ddiv s (Fin 360)) w) w) (Fin 360)"
  have t: "is_finite t" and Terr: "\<bar>dval t - dval s\<bar> \<le> d"
    unfolding t_def d_def by (rule scale_round_trip [OF s w _ _ S W]; simp)+
  have eq: "lo' = dsub t (Fin 180)"
    by (simp add: lo'_def t_def s_def lonToX_def)
  have diff: "\<bar>dval t - dval (Fin 180)\<bar> \<le> 542"
    using Terr Serr L small(4,5) by simp
  from diff big have "\<bar>dval t - dval (Fin 180)\<bar> \<le> 2 powi 1023"
    by (rule order_trans)
  with t have fin: "is_finite lo'"
    and "\<bar>dval lo' - (dval t - dval (Fin 180))\<bar> \<le> rnd_bound (dval t - dval (Fin 180))"
    unfolding eq using dsub_error [of t "Fin 180"] by simp_all
  with bound [OF diff] have "\<bar>dval lo' - (dval t - 180)\<bar> \<le> 542 * u + \<eta>"
    by simp
  with Terr Serr have "\<bar>dval lo' - dval lo\<bar> \<le> 902 * u + 2 * \<eta> + d"
    by linarith
  then show "\<bar>dval lo' - dval lo\<bar> \<le> 1 / 10 ^ 12"
    using small(3) by (rule order_trans)
  show "is_finite lo'" by (rule fin)
qed

lemma lat_round_trip:
  assumes la: "is_finite la" and h: "is_finite h"
    and L: "- 90 \<le> dval la" "dval la \<le> 90"
    and H: "2 powi (- 1022) \<le> dval h" "dval h \<le> max_double"
  defines "la' \<equiv> dsub (Fin 90) (dmul (ddiv (latToY la h) h) (Fin 180))"
  shows "is_finite la'" and "\<bar>dval la' - dval la\<bar> \<le> 1 / 10 ^ 12"
proof -
  define u :: rat where "u = 2 powi (- 53)"
  define \<eta> :: rat where "\<eta> = 2 powi (- 1075)"
  define d :: rat where "d = 180 * 2 powi (- 49)"
  have small: "0 < u" "0 < \<eta>" "452 * u + 2 * \<eta> + d \<le> 1 / 10 ^ 12"
    "d \<le> 1" "180 * u + \<eta> \<le> 1"
    by (simp_all add: u_def \<eta>_def d_def)
  have big: "(272::rat) \<le> 2 powi 1023"
    by simp
  have bound: "rnd_bound x \<le> c * u + \<eta>" if "\<bar>x\<bar> \<le> c" for x c
    unfolding u_def \<eta>_def using that by (rule rnd_bound_le)
  define s where "s = dsub (Fin 90) la"
  have sum: "0 \<le> dval (Fin 90) + dval (dneg la)" "dval (Fin 90) + dval (dneg la) \<le> of_int 180"
    using L by simp_all
  then have sum': "\<bar>dval (Fin 90) - dval la\<bar> \<le> 180"
    by simp
  have "is_finite (dneg la)"
    using la by simp
  with dadd_le_int [where a = "Fin 90" and b = "dneg la" and m = 180] sum
  have s: "is_finite s" and S: "0 \<le> dval s" "dval s \<le> 180"
    and "\<bar>dval s - (dval (Fin 90) - dval la)\<bar> \<le> rnd_bound (dval (Fin 90) - dval la)"
    unfolding s_def dsub_def by simp_all
  with bound [OF sum'] have Serr: "\<bar>dval s - (90 - dval la)\<bar> \<le> 180 * u + \<eta>"
    by simp
  define t where "t = dmul (ddiv (dmul (ddiv s (Fin 180)) h) h) (Fin 180)"
  have t: "is_finite t" and Terr: "\<bar>dval t - dval s\<bar> \<le> d"
    unfolding t_def d_def by (rule scale_round_trip [OF s h _ _ S H]; simp)+
  have eq: "la' = dsub (Fin 90) t"
    by (simp add: la'_def t_def s_def latToY_def)
  have diff: "\<bar>dval (Fin 90) - dval t\<bar> \<le> 272"
    using Terr Serr L small(4,5) by simp
  from diff big have "\<bar>dval (Fin 90) - dval t\<bar> \<le> 2 powi 1023"
    by (rule order_trans)
  with t have fin: "is_finite la'"
    and "\<bar>dval la' - (dval (Fin 90) - dval t)\<bar> \<le> rnd_bound (dval (Fin 90) - dval t)"
    unfolding eq using dsub_error [of "Fin 90" t] by simp_all
  with bound [OF diff] have "\<bar>dval la' - (90 - dval t)\<bar> \<le> 272 * u + \<eta>"
    by simp
  with Terr Serr have "\<bar>dval la' - dval la\<bar> \<le> 452 * u + 2 * \<eta> + d"
    by linarith
  then show "\<bar>dval la' - dval la\<bar> \<le> 1 / 10 ^ 12"
    using small(3) by (rule order_trans)
  show "is_finite la'" by (rule fin)
qed

text \<open>
  C3, as the code has it. For a latitude in \<open>[-90, 90]\<close>, a longitude in \<open>[-180, 180]\<close>
  and canvas dimensions that are normal doubles, from \<open>2 powi (- 1022)\<close> to the largest
  double, unprojecting the projected point gives finite numbers within \<open>1 / 10 ^ 12\<close> of
  the latitude and of the longitude. Over the reals the same formulas give the latitude
  and the longitude back exactly, for all positive canvas dimensions.
\<close>

theorem projection_round_trip:
  assumes "is_finite la" and "is_finite lo" and "is_finite w" and "is_finite h"
    and "- 90 \<le> dval la" and "dval la \<le> 90" and "- 180 \<le> dval lo" and "dval lo \<le> 180"
    and "2 powi (- 1022) \<le> dval w" and "dval w \<le> max_double"
    and "2 powi (- 1022) \<le> dval h" and "dval h \<le> max_double"
  shows "is_finite (lat (xyToLatLon (lonToX lo w) (latToY la h) w h))
       \<and> is_finite (lon (xyToLatLon (lonToX lo w) (latToY la h) w h))
       \<and> \<bar>dval (lat (xyToLatLon (lonToX lo w) (latToY la h) w h)) - dval la\<bar> \<le> 1 / 10 ^ 12
       \<and> \<bar>dval (lon (xyToLatLon (lonToX lo w) (latToY la h) w h)) - dval lo\<bar> \<le> 1 / 10 ^ 12
       \<and> (\<forall>(y::real) (x::real) (W::real) (H::real). 0 < W \<and> 0 < H \<longrightarrow>
             90 - ((90 - y) / 180 * H / H) * 180 = y \<and> ((x + 180) / 360 * W / W) * 360 - 180 = x)"
proof -
  note a = lat_round_trip [OF assms(1,4,5,6,11,12)]
  note b = lon_round_trip [OF assms(2,3,7,8,9,10)]
  have "\<forall>(y::real) (x::real) (W::real) (H::real). 0 < W \<and> 0 < H \<longrightarrow>
             90 - ((90 - y) / 180 * H / H) * 180 = y \<and> ((x + 180) / 360 * W / W) * 360 - 180 = x"
    by (simp add: field_simps)
  with a b show ?thesis
    by (simp add: xyToLatLon_def)
qed

text \<open>
  On a canvas of 720 by 330 pixels the point at latitude and longitude \<open>0.1\<close> comes back
  as \<open>(0.10000000000000853, 0.0999999999999659)\<close>: within the tolerance, and not equal.
\<close>

lemma rt_lon_1: "rnd (6488786343115410637 / 36028797018963968) = Fin (6336705413198643 / 35184372088832)"
  by (rule rnd_eqI(1) [where e = "- 45" and n = 6336705413198643 and x = "6488786343115410637 / 36028797018963968"]) simp_all

lemma rt_lon_2: "rnd (2112235137732881 / 4222124650659840) = Fin (4506101627163479 / 9007199254740992)"
  by (rule rnd_eqI(1) [where e = "- 53" and n = 4506101627163479 and x = "2112235137732881 / 4222124650659840"]) simp_all

lemma rt_lon_3: "rnd (202774573222356555 / 562949953421312) = Fin (3168352706599321 / 8796093022208)"
  by (rule rnd_eqI(1) [where e = "- 44" and n = 6336705413198642 and x = "202774573222356555 / 562949953421312"]) simp_all

lemma rt_lon_4: "rnd (3168352706599321 / 6333186975989760) = Fin (4506101627163479 / 9007199254740992)"
  by (rule rnd_eqI(1) [where e = "- 53" and n = 4506101627163479 and x = "3168352706599321 / 6333186975989760"]) simp_all

lemma rt_lon_5: "rnd (202774573222356555 / 1125899906842624) = Fin (3168352706599321 / 17592186044416)"
  by (rule rnd_eqI(1) [where e = "- 45" and n = 6336705413198642 and x = "202774573222356555 / 1125899906842624"]) simp_all

lemma rt_lon_6: "rnd (1759218604441 / 17592186044416) = Fin (1759218604441 / 17592186044416)"
  by (rule rnd_eqI(1) [where e = "- 56" and n = 7205759403790336 and x = "1759218604441 / 17592186044416"]) simp_all

lemma rt_lat_1: "rnd (3238988852004860723 / 36028797018963968) = Fin (3163075050785997 / 35184372088832)"
  by (rule rnd_eqI(1) [where e = "- 46" and n = 6326150101571994 and x = "3238988852004860723 / 36028797018963968"]) simp_all

lemma rt_lat_2: "rnd (1054358350261999 / 2111062325329920) = Fin (4498595627784529 / 9007199254740992)"
  by (rule rnd_eqI(1) [where e = "- 54" and n = 8997191255569058 and x = "1054358350261999 / 2111062325329920"]) simp_all

lemma rt_lat_3: "rnd (742268278584447285 / 4503599627370496) = Fin (2899485463220497 / 17592186044416)"
  by (rule rnd_eqI(1) [where e = "- 45" and n = 5798970926440994 and x = "742268278584447285 / 4503599627370496"]) simp_all

lemma rt_lat_4: "rnd (2899485463220497 / 5805421394657280) = Fin (8997191255569057 / 18014398509481984)"
  by (rule rnd_eqI(1) [where e = "- 54" and n = 8997191255569057 and x = "2899485463220497 / 5805421394657280"]) simp_all

lemma rt_lat_5: "rnd (404873606500607565 / 4503599627370496) = Fin (6326150101571993 / 70368744177664)"
  by (rule rnd_eqI(1) [where e = "- 46" and n = 6326150101571993 and x = "404873606500607565 / 4503599627370496"]) simp_all

lemma rt_lat_6: "rnd (7036874417767 / 70368744177664) = Fin (7036874417767 / 70368744177664)"
  by (rule rnd_eqI(1) [where e = "- 56" and n = 7205759403793408 and x = "7036874417767 / 70368744177664"]) simp_all

lemmas round_trip_values = rt_lon_1 rt_lon_2 rt_lon_3 rt_lon_4 rt_lon_5 rt_lon_6
  rt_lat_1 rt_lat_2 rt_lat_3 rt_lat_4 rt_lat_5 rt_lat_6

lemma representable_tenth: "representable tenth"
  unfolding representable_def tenth_def double.case
  by (rule rnd_eqI(1) [where e = "- 56" and n = 7205759403792794
        and x = "3602879701896397 / 36028797018963968"]) simp_all

lemma representable_min: "representable (Fin (2 powi (- 1074)))"
  unfolding representable_def double.case
  by (rule rnd_eqI(1) [where e = "- 1074" and n = 1]) simp_all

lemma dmul_half_min: "dmul (Fin (1 / 2)) (Fin (2 powi (- 1074))) = Fin 0"
proof -
  have "rnd (1 / 2 * 2 powi (- 1074)) = Fin 0"
    by (rule rnd_tiny(1)) simp_all
  then show ?thesis
    by (simp add: dmul_def)
qed

theorem projection_round_trip_witness:
  "representable tenth
   \<and> is_finite (lat (xyToLatLon (lonToX tenth (Fin 720)) (latToY tenth (Fin 330)) (Fin 720) (Fin 330)))
   \<and> is_finite (lon (xyToLatLon (lonToX tenth (Fin 720)) (latToY tenth (Fin 330)) (Fin 720) (Fin 330)))
   \<and> \<bar>dval (lat (xyToLatLon (lonToX tenth (Fin 720)) (latToY tenth (Fin 330)) (Fin 720) (Fin 330)))
        - dval tenth\<bar> \<le> 1 / 10 ^ 12
   \<and> \<bar>dval (lon (xyToLatLon (lonToX tenth (Fin 720)) (latToY tenth (Fin 330)) (Fin 720) (Fin 330)))
        - dval tenth\<bar> \<le> 1 / 10 ^ 12
   \<and> 90 - ((90 - 1 / 10) / 180 * 330 / 330) * 180 = (1 / 10 :: real)
   \<and> ((1 / 10 + 180) / 360 * 720 / 720) * 360 - 180 = (1 / 10 :: real)
   \<and> xyToLatLon (lonToX tenth (Fin 720)) (latToY tenth (Fin 330)) (Fin 720) (Fin 330)
        = \<lparr>lat = Fin (7036874417767 / 70368744177664), lon = Fin (1759218604441 / 17592186044416)\<rparr>
   \<and> Fin (7036874417767 / 70368744177664) \<noteq> tenth
   \<and> Fin (1759218604441 / 17592186044416) \<noteq> tenth"
proof -
  have v: "xyToLatLon (lonToX tenth (Fin 720)) (latToY tenth (Fin 330)) (Fin 720) (Fin 330)
        = \<lparr>lat = Fin (7036874417767 / 70368744177664), lon = Fin (1759218604441 / 17592186044416)\<rparr>"
    by (simp add: xyToLatLon_def lonToX_def latToY_def tenth_def dsub_def dmul_def ddiv_def
        round_trip_values)
  have "is_finite tenth" "- 90 \<le> dval tenth" "dval tenth \<le> 90" "- 180 \<le> dval tenth"
    "dval tenth \<le> 180" "is_finite (Fin 720)" "is_finite (Fin 330)"
    "2 powi (- 1022) \<le> dval (Fin 720)" "dval (Fin 720) \<le> max_double"
    "2 powi (- 1022) \<le> dval (Fin 330)" "dval (Fin 330) \<le> max_double"
    by (simp_all add: tenth_def max_double_def)
  then have "is_finite (lat (xyToLatLon (lonToX tenth (Fin 720)) (latToY tenth (Fin 330)) (Fin 720) (Fin 330)))
   \<and> is_finite (lon (xyToLatLon (lonToX tenth (Fin 720)) (latToY tenth (Fin 330)) (Fin 720) (Fin 330)))
   \<and> \<bar>dval (lat (xyToLatLon (lonToX tenth (Fin 720)) (latToY tenth (Fin 330)) (Fin 720) (Fin 330)))
        - dval tenth\<bar> \<le> 1 / 10 ^ 12
   \<and> \<bar>dval (lon (xyToLatLon (lonToX tenth (Fin 720)) (latToY tenth (Fin 330)) (Fin 720) (Fin 330)))
        - dval tenth\<bar> \<le> 1 / 10 ^ 12
   \<and> (\<forall>(y::real) (x::real) (W::real) (H::real). 0 < W \<and> 0 < H \<longrightarrow>
             90 - ((90 - y) / 180 * H / H) * 180 = y \<and> ((x + 180) / 360 * W / W) * 360 - 180 = x)"
    by (intro projection_round_trip)
  then show ?thesis
    unfolding v using representable_tenth by (simp add: tenth_def)
qed

text \<open>
  C3, as the claim has it, fails for a positive canvas dimension that is subnormal. On a
  canvas whose width and height are the smallest positive double, \<open>2 powi (- 1074)\<close>,
  the point at latitude 0 and longitude 0 is projected to the pixel \<open>(0, 0)\<close>, half the
  dimension rounding to zero, and comes back as latitude 90 and longitude -180.
\<close>

theorem projection_round_trip_fails_subnormal:
  "xyToLatLon (lonToX (Fin 0) (Fin (2 powi (- 1074)))) (latToY (Fin 0) (Fin (2 powi (- 1074))))
       (Fin (2 powi (- 1074))) (Fin (2 powi (- 1074)))
     = \<lparr>lat = Fin 90, lon = Fin (- 180)\<rparr>
   \<and> 0 < dval (Fin (2 powi (- 1074)))
   \<and> representable (Fin (2 powi (- 1074)))"
proof -
  have x: "lonToX (Fin 0) (Fin (2 powi (- 1074))) = Fin 0"
    unfolding lonToX_def using dmul_half_min by (simp add: ddiv_def rnd_values)
  have y: "latToY (Fin 0) (Fin (2 powi (- 1074))) = Fin 0"
    unfolding latToY_def using dmul_half_min by (simp add: dsub_def ddiv_def rnd_values)
  have m: "rnd (- 180) = Fin (- 180)"
    by (rule rnd_eqI(2) [where e = "- 45" and n = 6333186975989760 and x = 180]) simp_all
  show ?thesis
    unfolding x y using representable_min
    by (simp add: xyToLatLon_def dsub_def dmul_def ddiv_def zero_of_def rnd_values m)
qed

section \<open>Properties of the hit test\<close>

text \<open>
  The loop keeps in \<^verbatim>\<open>closest\<close> an event of the list seen so far whose distance is
  \<^verbatim>\<open>minDist\<close>, below the tolerance, with no event seen so far strictly nearer; while
  \<^verbatim>\<open>closest\<close> is \<^verbatim>\<open>null\<close>, \<^verbatim>\<open>minDist\<close> is the tolerance and no event seen so far is
  below it.
\<close>

lemma nearest_loop_spec:
  assumes "nearest_loop approx mx my w h es (c0, m0) = (c, m)"
  shows "(c = c0 \<and> m = m0 \<and> (\<forall>e\<in>set es. \<not> dlt (pixel_distance approx mx my w h e) m0))
         \<or> (\<exists>e\<in>set es. c = Some e \<and> m = pixel_distance approx mx my w h e \<and> dlt m m0
               \<and> (\<forall>e'\<in>set es. \<not> dlt (pixel_distance approx mx my w h e') m))"
  using assms
proof (induction es arbitrary: c0 m0)
  case Nil
  then show ?case by simp
next
  case (Cons evt rest)
  let ?d = "pixel_distance approx mx my w h evt"
  show ?case
  proof (cases "dlt ?d m0")
    case True
    with Cons.prems have run: "nearest_loop approx mx my w h rest (Some evt, ?d) = (c, m)"
      by (simp add: pixel_distance_def lonToX_def latToY_def Let_def)
    from Cons.IH [OF run] show ?thesis
    proof
      assume "c = Some evt \<and> m = ?d \<and> (\<forall>e\<in>set rest. \<not> dlt (pixel_distance approx mx my w h e) ?d)"
      with True show ?thesis by auto
    next
      assume "\<exists>e\<in>set rest. c = Some e \<and> m = pixel_distance approx mx my w h e \<and> dlt m ?d
               \<and> (\<forall>e'\<in>set rest. \<not> dlt (pixel_distance approx mx my w h e') m)"
      then obtain e where e: "e \<in> set rest" "c = Some e" "m = pixel_distance approx mx my w h e"
        "dlt m ?d" "\<forall>e'\<in>set rest. \<not> dlt (pixel_distance approx mx my w h e') m"
        by blast
      from e(4) True have "dlt m m0" by (rule dlt_trans)
      moreover from e(4) have "\<not> dlt ?d m"
        using dlt_trans [of ?d m ?d] by auto
      ultimately show ?thesis using e by auto
    qed
  next
    case False
    with Cons.prems have run: "nearest_loop approx mx my w h rest (c0, m0) = (c, m)"
      by (simp add: pixel_distance_def lonToX_def latToY_def Let_def)
    from Cons.IH [OF run] show ?thesis
    proof
      assume "c = c0 \<and> m = m0 \<and> (\<forall>e\<in>set rest. \<not> dlt (pixel_distance approx mx my w h e) m0)"
      with False show ?thesis by auto
    next
      assume "\<exists>e\<in>set rest. c = Some e \<and> m = pixel_distance approx mx my w h e \<and> dlt m m0
               \<and> (\<forall>e'\<in>set rest. \<not> dlt (pixel_distance approx mx my w h e') m)"
      then obtain e where e: "e \<in> set rest" "c = Some e" "m = pixel_distance approx mx my w h e"
        "dlt m m0" "\<forall>e'\<in>set rest. \<not> dlt (pixel_distance approx mx my w h e') m"
        by blast
      have "\<not> dlt ?d m"
      proof
        assume "dlt ?d m"
        from this e(4) have "dlt ?d m0" by (rule dlt_trans)
        with False show False by simp
      qed
      with e show ?thesis by auto
    qed
  qed
qed

lemma hypot_accurateD:
  assumes "hypot_accurate approx" and "x\<^sup>2 + y\<^sup>2 = r\<^sup>2"
    and "2 powi (- 1000) \<le> r" and "r \<le> 2 powi 1000"
  shows "\<exists>m. approx x y = Fin m \<and> r * (1 - 2 powi (- 50)) \<le> m \<and> m \<le> r * (1 + 2 powi (- 50))"
proof -
  have r0: "0 < r"
    using assms(3) by (rule less_le_trans [rotated]) simp
  have lo: "(2::rat) powi (- 2000) \<le> r\<^sup>2"
  proof -
    have "(2::rat) powi (- 2000) = (2 powi (- 1000))\<^sup>2"
      by (simp add: power2_eq_square flip: power_int_add)
    also have "\<dots> \<le> r\<^sup>2"
      using assms(3) by (intro power_mono) simp_all
    finally show ?thesis .
  qed
  have hi: "r\<^sup>2 \<le> (2::rat) powi 2000"
  proof -
    have "r\<^sup>2 \<le> (2 powi 1000)\<^sup>2"
      using assms(4) r0 by (intro power_mono) simp_all
    also have "\<dots> = (2::rat) powi 2000"
      by (simp add: power2_eq_square flip: power_int_add)
    finally show ?thesis .
  qed
  from assms(1) lo hi obtain m where m: "approx x y = Fin m" "0 \<le> m"
    and acc: "\<bar>real_of_rat m - sqrt (real_of_rat (x\<^sup>2 + y\<^sup>2))\<bar>
               \<le> sqrt (real_of_rat (x\<^sup>2 + y\<^sup>2)) * 2 powi (- 50)"
    unfolding hypot_accurate_def assms(2) [symmetric] by blast
  have root: "sqrt (real_of_rat (x\<^sup>2 + y\<^sup>2)) = real_of_rat r"
    using r0 by (simp add: assms(2) of_rat_power real_sqrt_abs)
  define c :: rat where "c = 2 powi (- 50)"
  have p50: "(2::real) powi (- 50) = real_of_rat c"
    by (simp add: c_def of_rat_divide of_rat_power)
  from acc have "\<bar>real_of_rat m - real_of_rat r\<bar> \<le> real_of_rat r * real_of_rat c"
    unfolding root p50 .
  then have "real_of_rat m \<le> real_of_rat r + real_of_rat r * real_of_rat c"
    and "real_of_rat r - real_of_rat r * real_of_rat c \<le> real_of_rat m"
    by linarith+
  then have "real_of_rat m \<le> real_of_rat (r + r * c)"
    and "real_of_rat (r - r * c) \<le> real_of_rat m"
    by (simp_all only: of_rat_add of_rat_diff of_rat_mult)
  then have "m \<le> r + r * c" and "r - r * c \<le> m"
    by (simp_all only: of_rat_less_eq)
  then have "m \<le> r * (1 + 2 powi (- 50))" and "r * (1 - 2 powi (- 50)) \<le> m"
    unfolding c_def by (simp_all only: distrib_left right_diff_distrib mult_1_right)
  with m show ?thesis by blast
qed

lemma findNearestEvent_Some:
  assumes "findNearestEvent approx mx my es w h maxDist = Some e"
  shows "e \<in> set es \<and> dlt (pixel_distance approx mx my w h e) maxDist
         \<and> (\<forall>e'\<in>set es. \<not> dlt (pixel_distance approx mx my w h e')
                                 (pixel_distance approx mx my w h e))"
proof -
  obtain c m where run: "nearest_loop approx mx my w h es (None, maxDist) = (c, m)"
    by (cases "nearest_loop approx mx my w h es (None, maxDist)")
  with assms have "c = Some e"
    by (simp add: findNearestEvent_def)
  with nearest_loop_spec [OF run] show ?thesis
    by auto
qed

lemma findNearestEvent_None:
  "findNearestEvent approx mx my es w h maxDist = None
     \<longleftrightarrow> (\<forall>e\<in>set es. \<not> dlt (pixel_distance approx mx my w h e) maxDist)"
proof -
  obtain c m where run: "nearest_loop approx mx my w h es (None, maxDist) = (c, m)"
    by (cases "nearest_loop approx mx my w h es (None, maxDist)")
  then have "findNearestEvent approx mx my es w h maxDist = c"
    by (simp add: findNearestEvent_def)
  with nearest_loop_spec [OF run] show ?thesis
    by (auto dest: dlt_trans)
qed

lemma findNearestEvent_single:
  "findNearestEvent approx mx my [e] w h maxDist =
     (if dlt (pixel_distance approx mx my w h e) maxDist then Some e else None)"
  by (simp add: findNearestEvent_def pixel_distance_def lonToX_def latToY_def Let_def)

lemma Math_hypot_near:
  assumes "hypot_accurate approx" and "x\<^sup>2 + y\<^sup>2 = r\<^sup>2"
    and "2 powi (- 1000) \<le> r" and "r \<le> 2 powi 1000"
  shows "\<exists>m. Math_hypot approx (Fin x) (Fin y) = Fin m
           \<and> r * (1 - 2 powi (- 50)) \<le> m \<and> m \<le> r * (1 + 2 powi (- 50))"
proof -
  have "0 < r"
    using assms(3) by (rule less_le_trans [rotated]) simp
  then have "0 < r\<^sup>2" by simp
  with assms(2) have "x \<noteq> 0 \<or> y \<noteq> 0"
    by auto
  then have "Math_hypot approx (Fin x) (Fin y) = approx x y"
    by (auto simp: Math_hypot_def)
  with hypot_accurateD [OF assms] show ?thesis
    by simp
qed

lemma hypot_below:
  assumes "hypot_accurate approx" and "x\<^sup>2 + y\<^sup>2 = r\<^sup>2"
    and "2 powi (- 1000) \<le> r" and "r \<le> 2 powi 1000" and "r * (1 + 2 powi (- 50)) < t"
  shows "dlt (Math_hypot approx (Fin x) (Fin y)) (Fin t)"
  using Math_hypot_near [OF assms(1-4)] assms(5) by auto

lemma hypot_not_below:
  assumes "hypot_accurate approx" and "x\<^sup>2 + y\<^sup>2 = r\<^sup>2"
    and "2 powi (- 1000) \<le> r" and "r \<le> 2 powi 1000" and "t \<le> r * (1 - 2 powi (- 50))"
  shows "\<not> dlt (Math_hypot approx (Fin x) (Fin y)) (Fin t)"
  using Math_hypot_near [OF assms(1-4)] assms(5) by auto

lemma dsub_values:
  "dsub (Fin 101) (Fin 100) = Fin 1"
  "dsub (Fin 100) (Fin 100) = Fin 0"
  "dsub (Fin 130) (Fin 100) = Fin 30"
  "dsub (Fin 103) (Fin 100) = Fin 3"
  "dsub (Fin 104) (Fin 100) = Fin 4"
  "dsub (Fin 112) (Fin 100) = Fin 12"
  "dsub (Fin 116) (Fin 100) = Fin 16"
  "dsub (Fin 180) (Fin 180) = Fin 0"
  "dsub (Fin 352) (Fin (6509108836433919 / 17592186044416))
     = Fin (- (316659348799487 / 17592186044416))"
  by (simp_all add: dsub_def zero_of_def rnd_values)

lemma projections:
  "dmul (ddiv (dadd (Fin (- 90)) (Fin 180)) (Fin 360)) (Fin 400) = Fin 100"
  "dmul (ddiv (dsub (Fin 90) (Fin 45)) (Fin 180)) (Fin 400) = Fin 100"
  "dmul (ddiv (dadd (Fin 5) (Fin 180)) (Fin 360)) (Fin 720) = Fin (6509108836433919 / 17592186044416)"
  "dmul (ddiv (dsub (Fin 90) (Fin 0)) (Fin 180)) (Fin 360) = Fin 180"
  by (simp_all add: dsub_def dmul_def ddiv_def zero_of_def rnd_values)

lemma example_distances:
  assumes "hypot_accurate approx"
  shows "dlt (Math_hypot approx (Fin 1) (Fin 0)) (Fin 18)"
    and "\<not> dlt (Math_hypot approx (Fin 30) (Fin 0)) (Fin 18)"
    and "\<not> dlt (Math_hypot approx (Fin 0) (Fin 30)) (Fin 18)"
    and "dlt (Math_hypot approx (Fin 3) (Fin 4)) (Fin 18)"
    and "\<not> dlt (Math_hypot approx (Fin 12) (Fin 16)) (Fin 18)"
    and "dlt (Math_hypot approx (Fin (- (316659348799487 / 17592186044416))) (Fin 0)) (Fin 18)"
proof -
  show "dlt (Math_hypot approx (Fin 1) (Fin 0)) (Fin 18)"
    by (rule hypot_below [OF assms, where r = 1]) simp_all
  show "\<not> dlt (Math_hypot approx (Fin 30) (Fin 0)) (Fin 18)"
    by (rule hypot_not_below [OF assms, where r = 30]) simp_all
  show "\<not> dlt (Math_hypot approx (Fin 0) (Fin 30)) (Fin 18)"
    by (rule hypot_not_below [OF assms, where r = 30]) simp_all
  show "dlt (Math_hypot approx (Fin 3) (Fin 4)) (Fin 18)"
    by (rule hypot_below [OF assms, where r = 5]) simp_all
  show "\<not> dlt (Math_hypot approx (Fin 12) (Fin 16)) (Fin 18)"
    by (rule hypot_not_below [OF assms, where r = 20]) simp_all
  show "dlt (Math_hypot approx (Fin (- (316659348799487 / 17592186044416))) (Fin 0)) (Fin 18)"
    by (rule hypot_below [OF assms, where r = "316659348799487 / 17592186044416"]) simp_all
qed

text \<open>
  C4. For every pointer, event list, canvas and tolerance, and whatever the platform's
  \<^verbatim>\<open>Math.hypot\<close> returns, an event that \<^verbatim>\<open>findNearestEvent\<close> returns is in the list, its
  pixel distance to the pointer is below the tolerance and no event of the list is
  strictly nearer; the result is null exactly when no event's distance is below the
  tolerance, as for the empty list. On a platform with an accurate \<^verbatim>\<open>Math.hypot\<close>, an
  event projected to the pixel \<open>(100, 100)\<close> is returned for the pointer \<open>(101, 100)\<close> and
  is not returned for the pointer \<open>(130, 100)\<close>, with tolerance 18. The event at 45 N
  90 W on a canvas of 400 by 400 pixels is such an event; it is also returned for the
  pointer \<open>(103, 104)\<close>, at distance 5, and not for \<open>(100, 130)\<close> and \<open>(112, 116)\<close>, at
  distances 30 and 20. On a canvas of 720 by 360 pixels the event at 0 N 5 E is
  returned for the pointer \<open>(352, 180)\<close>: its pixel is computed as
  \<open>(369.99999999999994, 180)\<close>, just below 18 pixels away.
\<close>

theorem findNearestEvent_nearest:
  fixes es :: "'a latlon_scheme list"
  shows "(\<forall>e. findNearestEvent approx mx my es w h maxDist = Some e \<longrightarrow>
            e \<in> set es \<and> dlt (pixel_distance approx mx my w h e) maxDist
            \<and> (\<forall>e'\<in>set es. \<not> dlt (pixel_distance approx mx my w h e')
                                    (pixel_distance approx mx my w h e)))
       \<and> (findNearestEvent approx mx my es w h maxDist = None
            \<longleftrightarrow> (\<forall>e\<in>set es. \<not> dlt (pixel_distance approx mx my w h e) maxDist))
       \<and> findNearestEvent approx mx my ([] :: 'a latlon_scheme list) w h maxDist = None
       \<and> (hypot_accurate approx \<longrightarrow>
            (\<forall>e. lonToX (lon e) w = Fin 100 \<and> latToY (lat e) h = Fin 100 \<longrightarrow>
               findNearestEvent approx (Fin 101) (Fin 100) [e] w h (Fin 18) = Some e
               \<and> findNearestEvent approx (Fin 130) (Fin 100) [e] w h (Fin 18) = None
               \<and> findNearestEvent approx (Fin 130) (Fin 100) es w h (Fin 18) \<noteq> Some e)
            \<and> lonToX (lon event_45_90w) (Fin 400) = Fin 100
            \<and> latToY (lat event_45_90w) (Fin 400) = Fin 100
            \<and> findNearestEvent approx (Fin 101) (Fin 100) [event_45_90w] (Fin 400) (Fin 400) (Fin 18)
                = Some event_45_90w
            \<and> findNearestEvent approx (Fin 130) (Fin 100) [event_45_90w] (Fin 400) (Fin 400) (Fin 18)
                = None
            \<and> findNearestEvent approx (Fin 100) (Fin 130) [event_45_90w] (Fin 400) (Fin 400) (Fin 18)
                = None
            \<and> findNearestEvent approx (Fin 103) (Fin 104) [event_45_90w] (Fin 400) (Fin 400) (Fin 18)
                = Some event_45_90w
            \<and> findNearestEvent approx (Fin 112) (Fin 116) [event_45_90w] (Fin 400) (Fin 400) (Fin 18)
                = None
            \<and> findNearestEvent approx (Fin 352) (Fin 180) [event_0_5e] (Fin 720) (Fin 360) (Fin 18)
                = Some event_0_5e)"
proof -
  have minimal: "\<forall>e. findNearestEvent approx mx my es w h maxDist = Some e \<longrightarrow>
            e \<in> set es \<and> dlt (pixel_distance approx mx my w h e) maxDist
            \<and> (\<forall>e'\<in>set es. \<not> dlt (pixel_distance approx mx my w h e')
                                    (pixel_distance approx mx my w h e))"
    using findNearestEvent_Some [of approx mx my es w h maxDist] by blast
  have null: "findNearestEvent approx mx my es w h maxDist = None
            \<longleftrightarrow> (\<forall>e\<in>set es. \<not> dlt (pixel_distance approx mx my w h e) maxDist)"
    by (rule findNearestEvent_None)
  have empty: "findNearestEvent approx mx my ([] :: 'a latlon_scheme list) w h maxDist = None"
    by (simp add: findNearestEvent_def)
  have examples: "(\<forall>e. lonToX (lon e) w = Fin 100 \<and> latToY (lat e) h = Fin 100 \<longrightarrow>
               findNearestEvent approx (Fin 101) (Fin 100) [e] w h (Fin 18) = Some e
               \<and> findNearestEvent approx (Fin 130) (Fin 100) [e] w h (Fin 18) = None
               \<and> findNearestEvent approx (Fin 130) (Fin 100) es w h (Fin 18) \<noteq> Some e)
            \<and> lonToX (lon event_45_90w) (Fin 400) = Fin 100
            \<and> latToY (lat event_45_90w) (Fin 400) = Fin 100
            \<and> findNearestEvent approx (Fin 101) (Fin 100) [event_45_90w] (Fin 400) (Fin 400) (Fin 18)
                = Some event_45_90w
            \<and> findNearestEvent approx (Fin 130) (Fin 100) [event_45_90w] (Fin 400) (Fin 400) (Fin 18)
                = None
            \<and> findNearestEvent approx (Fin 100) (Fin 130) [event_45_90w] (Fin 400) (Fin 400) (Fin 18)
                = None
            \<and> findNearestEvent approx (Fin 103) (Fin 104) [event_45_90w] (Fin 400) (Fin 400) (Fin 18)
                = Some event_45_90w
            \<and> findNearestEvent approx (Fin 112) (Fin 116) [event_45_90w] (Fin 400) (Fin 400) (Fin 18)
                = None
            \<and> findNearestEvent approx (Fin 352) (Fin 180) [event_0_5e] (Fin 720) (Fin 360) (Fin 18)
                = Some event_0_5e"
    if acc: "hypot_accurate approx"
  proof -
    note d = example_distances [OF acc]
    have generic: "findNearestEvent approx (Fin 101) (Fin 100) [e] w h (Fin 18) = Some e
               \<and> findNearestEvent approx (Fin 130) (Fin 100) [e] w h (Fin 18) = None
               \<and> findNearestEvent approx (Fin 130) (Fin 100) es w h (Fin 18) \<noteq> Some e"
      if at: "lonToX (lon e) w = Fin 100 \<and> latToY (lat e) h = Fin 100" for e :: "'a latlon_scheme"
    proof -
      from at have x: "dmul (ddiv (dadd (lon e) (Fin 180)) (Fin 360)) w = Fin 100"
        and y: "dmul (ddiv (dsub (Fin 90) (lat e)) (Fin 180)) h = Fin 100"
        by (simp_all add: lonToX_def latToY_def)
      have near: "dlt (pixel_distance approx (Fin 101) (Fin 100) w h e) (Fin 18)"
        using d(1) by (simp add: pixel_distance_def x y dsub_values)
      have far: "\<not> dlt (pixel_distance approx (Fin 130) (Fin 100) w h e) (Fin 18)"
        using d(2) by (simp add: pixel_distance_def x y dsub_values)
      have "findNearestEvent approx (Fin 130) (Fin 100) es w h (Fin 18) \<noteq> Some e"
      proof
        assume "findNearestEvent approx (Fin 130) (Fin 100) es w h (Fin 18) = Some e"
        from findNearestEvent_Some [OF this] far show False
          by simp
      qed
      with near far show ?thesis
        by (simp add: findNearestEvent_single)
    qed
    have p: "lonToX (lon event_45_90w) (Fin 400) = Fin 100"
      "latToY (lat event_45_90w) (Fin 400) = Fin 100"
      by (simp_all add: lonToX_def latToY_def event_45_90w_def dsub_def dmul_def ddiv_def zero_of_def rnd_values)
    have c1: "dlt (pixel_distance approx (Fin 101) (Fin 100) (Fin 400) (Fin 400) event_45_90w) (Fin 18)"
      using d(1) by (simp add: pixel_distance_def event_45_90w_def dsub_def dmul_def ddiv_def zero_of_def rnd_values)
    have c2: "\<not> dlt (pixel_distance approx (Fin 130) (Fin 100) (Fin 400) (Fin 400) event_45_90w) (Fin 18)"
      using d(2) by (simp add: pixel_distance_def event_45_90w_def dsub_def dmul_def ddiv_def zero_of_def rnd_values)
    have c3: "\<not> dlt (pixel_distance approx (Fin 100) (Fin 130) (Fin 400) (Fin 400) event_45_90w) (Fin 18)"
      using d(3) by (simp add: pixel_distance_def event_45_90w_def dsub_def dmul_def ddiv_def zero_of_def rnd_values)
    have c4: "dlt (pixel_distance approx (Fin 103) (Fin 104) (Fin 400) (Fin 400) event_45_90w) (Fin 18)"
      using d(4) by (simp add: pixel_distance_def event_45_90w_def dsub_def dmul_def ddiv_def zero_of_def rnd_values)
    have c5: "\<not> dlt (pixel_distance approx (Fin 112) (Fin 116) (Fin 400) (Fin 400) event_45_90w) (Fin 18)"
      using d(5) by (simp add: pixel_distance_def event_45_90w_def dsub_def dmul_def ddiv_def zero_of_def rnd_values)
    have c6: "dlt (pixel_distance approx (Fin 352) (Fin 180) (Fin 720) (Fin 360) event_0_5e) (Fin 18)"
      using d(6) by (simp add: pixel_distance_def event_0_5e_def dsub_def dmul_def ddiv_def zero_of_def rnd_values)
    from generic have "\<forall>e. lonToX (lon e) w = Fin 100 \<and> latToY (lat e) h = Fin 100 \<longrightarrow>
               findNearestEvent approx (Fin 101) (Fin 100) [e] w h (Fin 18) = Some e
               \<and> findNearestEvent approx (Fin 130) (Fin 100) [e] w h (Fin 18) = None
               \<and> findNearestEvent approx (Fin 130) (Fin 100) es w h (Fin 18) \<noteq> Some e"
      by simp
    with p c1 c2 c3 c4 c5 c6 show ?thesis
      by (simp add: findNearestEvent_single)
  qed
  note ex = impI [OF examples]
  show ?thesis
    by (rule conjI [OF minimal conjI [OF null conjI [OF empty ex]]])
qed

text \<open>
  The sample platform is accurate: its result is the rounding of a rational within
  \<open>2 powi (- 64)\<close> of the square root.
\<close>

lemma isqrt_from_correct:
  assumes "r\<^sup>2 \<le> n" and "n < (r + 2 ^ i)\<^sup>2"
  shows "(isqrt_from i n r)\<^sup>2 \<le> n \<and> n < (isqrt_from i n r + 1)\<^sup>2"
  using assms
proof (induction i arbitrary: r)
  case 0
  then show ?case by simp
next
  case (Suc i)
  show ?case
  proof (cases "(r + 2 ^ i)\<^sup>2 \<le> n")
    case True
    have "r + 2 ^ i + 2 ^ i = r + 2 ^ Suc i" by simp
    with Suc.prems(2) have "n < (r + 2 ^ i + 2 ^ i)\<^sup>2" by (simp only:)
    from Suc.IH [OF True this] True show ?thesis by simp
  next
    case False
    then have "n < (r + 2 ^ i)\<^sup>2" by simp
    from Suc.IH [OF Suc.prems(1) this] False show ?thesis by simp
  qed
qed

lemma isqrt_correct: "(isqrt n)\<^sup>2 \<le> n \<and> n < (isqrt n + 1)\<^sup>2"
proof -
  have "n < (0 + 2 ^ nat (bitlen (int n)))\<^sup>2"
  proof (cases "n = 0")
    case True
    then show ?thesis by simp
  next
    case False
    then have "int n < 2 ^ nat (bitlen (int n))"
      using bitlen_bounds [of "int n"] by simp
    then have "n < 2 ^ nat (bitlen (int n))"
      by (metis of_nat_less_iff of_nat_numeral of_nat_power)
    also have "\<dots> \<le> (2 ^ nat (bitlen (int n)))\<^sup>2"
      by (simp add: power2_eq_square)
    finally show ?thesis by simp
  qed
  then show ?thesis
    unfolding isqrt_def by (intro isqrt_from_correct) simp_all
qed

lemma sqrt_approx_bounds:
  assumes "0 < s"
  shows "0 < sqrt_approx s" and "(sqrt_approx s)\<^sup>2 \<le> s"
    and "\<exists>g. 0 < g \<and> g\<^sup>2 \<le> s \<and> s < (sqrt_approx s + g / 2 ^ 64)\<^sup>2"
proof -
  obtain p q where pq: "quotient_of s = (p, q)"
    by (cases "quotient_of s")
  then have q: "0 < q" and s: "s = of_int p / of_int q"
    by (simp_all add: quotient_of_denom_pos quotient_of_div)
  with assms have p: "0 < p"
    by (simp add: zero_less_divide_iff)
  define N where "N = nat (p * q * 2 ^ 128)"
  define t where "t = isqrt N"
  define g :: rat where "g = 1 / of_int q"
  have N: "int N = p * q * 2 ^ 128"
    using p q by (simp add: N_def)
  define d :: rat where "d = g / 2 ^ 64"
  have r: "sqrt_approx s = of_nat t * d"
    by (simp add: sqrt_approx_def pq t_def N_def g_def d_def)
  have g0: "0 < g" using q by (simp add: g_def)
  have d0: "0 < d" using g0 by (simp add: d_def)
  have sN: "of_nat N * d\<^sup>2 = s"
  proof -
    have "(of_nat N :: rat) = of_int (int N)" by simp
    also have "\<dots> = of_int p * of_int q * 2 ^ 128" by (simp add: N)
    finally show ?thesis
      using q by (simp add: s g_def d_def power2_eq_square field_simps)
  qed
  note c = isqrt_correct [of N, folded t_def]
  have one: "1 \<le> N"
  proof -
    have "1 \<le> p * q" using p q by (simp add: pos_zmult_eq_1_iff_lemma mult_pos_pos int_one_le_iff_zero_less)
    then have "1 * 1 \<le> (p * q) * 2 ^ 128"
      by (intro mult_mono) simp_all
    then have "1 \<le> int N" by (simp add: N)
    then show ?thesis by simp
  qed
  have t1: "1 \<le> t"
  proof (rule ccontr)
    assume "\<not> 1 \<le> t"
    then have "t = 0" by simp
    with c one show False by simp
  qed
  show "0 < sqrt_approx s"
    using t1 d0 by (simp add: r)
  have "(of_nat t :: rat)\<^sup>2 \<le> of_nat N"
    using c by (metis of_nat_le_iff of_nat_power)
  then have "(of_nat t)\<^sup>2 * d\<^sup>2 \<le> of_nat N * d\<^sup>2"
    by (intro mult_right_mono) simp_all
  then show "(sqrt_approx s)\<^sup>2 \<le> s"
    unfolding r power_mult_distrib sN .
  have "(of_nat N :: rat) < (of_nat (t + 1))\<^sup>2"
    using c by (metis of_nat_less_iff of_nat_power)
  then have "of_nat N * d\<^sup>2 < (of_nat (t + 1))\<^sup>2 * d\<^sup>2"
    using d0 by (intro mult_strict_right_mono) simp_all
  also have "(of_nat (t + 1))\<^sup>2 * d\<^sup>2 = (sqrt_approx s + g / 2 ^ 64)\<^sup>2"
    unfolding r d_def [symmetric] by (simp add: power2_eq_square algebra_simps)
  finally have up: "s < (sqrt_approx s + g / 2 ^ 64)\<^sup>2"
    unfolding sN .
  have "g\<^sup>2 \<le> s"
  proof -
    have "(1::rat) \<le> of_int p * of_int q"
      using p q by (metis mult_pos_pos of_int_1_le_iff of_int_mult int_one_le_iff_zero_less)
    then show ?thesis
      using q by (simp add: g_def s power2_eq_square field_simps)
  qed
  with g0 up show "\<exists>g. 0 < g \<and> g\<^sup>2 \<le> s \<and> s < (sqrt_approx s + g / 2 ^ 64)\<^sup>2"
    by blast
qed


lemma rnd_pos_Fin:
  assumes "0 < r" and "r \<le> 2 powi 1023"
  shows "\<exists>m. rnd r = Fin m \<and> 0 \<le> m \<and> \<bar>m - r\<bar> \<le> rnd_bound r"
proof -
  from assms have b: "\<bar>r\<bar> \<le> 2 powi 1023" by simp
  note e = rnd_error [OF b]
  have m0: "0 \<le> rnd_mag \<bar>r\<bar>"
    by (intro rnd_mag_nonneg) simp
  from e(1) assms(1) have "rnd r = Fin (dval (rnd r)) \<and> 0 \<le> dval (rnd r)"
    using m0 by (auto simp: rnd_def split: if_splits)
  with e(2) show ?thesis by metis
qed

lemma hypot_sample_accurate: "hypot_accurate hypot_sample"
  unfolding hypot_accurate_def
proof (intro allI impI)
  fix x y :: rat
  define s where "s = x\<^sup>2 + y\<^sup>2"
  assume "2 powi (- 2000) \<le> x\<^sup>2 + y\<^sup>2 \<and> x\<^sup>2 + y\<^sup>2 \<le> 2 powi 2000"
  then have lo: "2 powi (- 2000) \<le> s" and hi: "s \<le> 2 powi 2000"
    by (simp_all add: s_def)
  have s0: "0 < s"
    using lo by (rule less_le_trans [rotated]) simp
  define r where "r = sqrt_approx s"
  from sqrt_approx_bounds [OF s0] obtain g where r0: "0 < r" and r2: "r\<^sup>2 \<le> s"
    and g0: "0 < g" and g2: "g\<^sup>2 \<le> s" and up: "s < (r + g / 2 ^ 64)\<^sup>2"
    unfolding r_def by blast
  have "r\<^sup>2 \<le> (2 powi 1000)\<^sup>2"
  proof -
    have "(2::rat) powi 2000 = (2 powi 1000)\<^sup>2"
      by (simp add: power2_eq_square flip: power_int_add)
    with r2 hi show ?thesis by simp
  qed
  then have "r \<le> 2 powi 1000"
    by (rule power2_le_imp_le) simp
  also have "\<dots> \<le> (2::rat) powi 1023"
    by (intro power_int_increasing) simp_all
  finally have rb: "r \<le> 2 powi 1023" .
  from rnd_pos_Fin [OF r0 rb] obtain m where m: "rnd r = Fin m" "0 \<le> m"
    and err: "\<bar>m - r\<bar> \<le> r * 2 powi (- 53) + 2 powi (- 1075)"
    using r0 by (auto simp: rnd_bound_def)
  define Q where "Q = sqrt (real_of_rat s)"
  define R where "R = real_of_rat r"
  define G where "G = real_of_rat g"
  define M where "M = real_of_rat m"
  have "real_of_rat (r\<^sup>2) \<le> real_of_rat s"
    using r2 by (simp only: of_rat_less_eq)
  then have RQ: "R \<le> Q"
    unfolding Q_def R_def by (intro real_le_rsqrt) (simp add: of_rat_power)
  have "real_of_rat (g\<^sup>2) \<le> real_of_rat s"
    using g2 by (simp only: of_rat_less_eq)
  then have GQ: "G \<le> Q"
    unfolding Q_def G_def by (intro real_le_rsqrt) (simp add: of_rat_power)
  have "real_of_rat s < real_of_rat ((r + g / 2 ^ 64)\<^sup>2)"
    using up by (simp only: of_rat_less)
  then have "real_of_rat s < (R + G / 2 ^ 64)\<^sup>2"
    by (simp add: R_def G_def of_rat_power of_rat_add of_rat_divide)
  moreover have "0 \<le> R + G / 2 ^ 64"
    using r0 g0 by (simp add: R_def G_def add_nonneg_nonneg)
  ultimately have QR: "Q < R + G / 2 ^ 64"
    unfolding Q_def by (intro real_less_lsqrt)
  have "real_of_rat ((2 powi (- 1000))\<^sup>2) \<le> real_of_rat s"
  proof -
    have "(2::rat) powi (- 2000) = (2 powi (- 1000))\<^sup>2"
      by (simp add: power2_eq_square flip: power_int_add)
    with lo show ?thesis by (simp only: of_rat_less_eq)
  qed
  then have "real_of_rat (2 powi (- 1000)) \<le> Q"
    unfolding Q_def by (intro real_le_rsqrt) (simp only: of_rat_power)
  then have TQ: "1 / 2 ^ 1000 \<le> Q"
    by (simp add: of_rat_divide of_rat_power)
  define a :: real where "a = 1 / 2 ^ 53"
  define b :: real where "b = 1 / 2 ^ 64"
  define k :: real where "k = 1 / 2 ^ 75"
  define d :: real where "d = 1 / 2 ^ 50"
  define e :: real where "e = 1 / 2 ^ 1075"
  from err have "m \<le> r + (r * 2 powi (- 53) + 2 powi (- 1075))"
    and "r \<le> m + (r * 2 powi (- 53) + 2 powi (- 1075))"
    by (simp_all add: abs_le_iff)
  then have "real_of_rat m \<le> real_of_rat (r + (r * 2 powi (- 53) + 2 powi (- 1075)))"
    and "real_of_rat r \<le> real_of_rat (m + (r * 2 powi (- 53) + 2 powi (- 1075)))"
    by (simp_all only: of_rat_less_eq)
  then have MR: "M \<le> R + (R * a + e)" "R \<le> M + (R * a + e)"
    by (simp_all add: M_def R_def a_def e_def of_rat_add of_rat_mult of_rat_divide of_rat_power)
  have R0: "0 \<le> R" and Q0: "0 \<le> Q"
    using r0 s0 by (simp_all add: R_def Q_def)
  have Ra: "R * a \<le> Q * a"
    using RQ by (intro mult_right_mono) (simp_all add: a_def)
  have Gb: "G * b \<le> Q * b"
    using GQ by (intro mult_right_mono) (simp_all add: b_def)
  have "1 / 2 ^ 1000 * k \<le> Q * k"
    using TQ by (intro mult_right_mono) (simp_all add: k_def)
  then have ek: "e \<le> Q * k"
    by (simp add: e_def k_def)
  have "a + b + k \<le> d"
    by (simp add: a_def b_def k_def d_def)
  then have "Q * (a + b + k) \<le> Q * d"
    using Q0 by (intro mult_left_mono)
  then have sum: "Q * a + Q * b + Q * k \<le> Q * d"
    by (simp add: distrib_left)
  have b0: "0 \<le> Q * b" "0 \<le> Q * k"
    using Q0 by (simp_all add: b_def k_def)
  from QR have QR': "Q < R + G * b"
    by (simp add: b_def)
  have "\<bar>M - Q\<bar> \<le> Q * d"
    using RQ QR' MR Ra Gb ek sum b0 by linarith
  then have "\<bar>real_of_rat m - sqrt (real_of_rat s)\<bar> \<le> sqrt (real_of_rat s) * 2 powi (- 50)"
    by (simp add: M_def Q_def d_def)
  with m show "\<exists>m. hypot_sample x y = Fin m \<and> 0 \<le> m
           \<and> \<bar>real_of_rat m - sqrt (real_of_rat (x\<^sup>2 + y\<^sup>2))\<bar>
               \<le> sqrt (real_of_rat (x\<^sup>2 + y\<^sup>2)) * 2 powi (- 50)"
    unfolding hypot_sample_def s_def [symmetric] r_def [symmetric] by blast
qed

text \<open>
  Two events within the tolerance of the pointer \<open>(100, 105)\<close>, at the distances 15 and
  5, and beyond it for the pointer \<open>(100, 140)\<close>, at the distances 20 and 40.
\<close>

lemma rnd_54: "rnd 54 = Fin 54"
  by (rule rnd_eqI(1) [where e = "- 47" and n = 7599824371187712 and x = "54"]) simp_all

lemma rnd_3_10: "rnd (3 / 10) = Fin (5404319552844595 / 18014398509481984)"
  by (rule rnd_eqI(1) [where e = "- 54" and n = 5404319552844595 and x = "3 / 10"]) simp_all

lemma rnd_y120: "rnd (135107988821114875 / 1125899906842624) = Fin 120"
  by (rule rnd_eqI(1) [where e = "- 46" and n = 8444249301319680 and x = "135107988821114875 / 1125899906842624"]) simp_all

lemma rnd_5: "rnd 5 = Fin 5"
  by (rule rnd_eqI(1) [where e = "- 50" and n = 5629499534213120 and x = "5"]) simp_all

lemma rnd_m15: "rnd (- 15) = Fin (- 15)"
  by (rule rnd_eqI(2) [where e = "- 49" and n = 8444249301319680 and x = "15"]) simp_all

lemma rnd_40: "rnd 40 = Fin 40"
  by (rule rnd_eqI(1) [where e = "- 47" and n = 5629499534213120 and x = "40"]) simp_all

lemma rnd_20: "rnd 20 = Fin 20"
  by (rule rnd_eqI(1) [where e = "- 48" and n = 5629499534213120 and x = "20"]) simp_all

lemma sample_pixel_distances:
  "pixel_distance approx (Fin 100) (Fin 105) (Fin 400) (Fin 400) event_45_90w
     = Math_hypot approx (Fin 0) (Fin 5)"
  "pixel_distance approx (Fin 100) (Fin 105) (Fin 400) (Fin 400) event_36_90w
     = Math_hypot approx (Fin 0) (Fin (- 15))"
  "pixel_distance approx (Fin 100) (Fin 140) (Fin 400) (Fin 400) event_45_90w
     = Math_hypot approx (Fin 0) (Fin 40)"
  "pixel_distance approx (Fin 100) (Fin 140) (Fin 400) (Fin 400) event_36_90w
     = Math_hypot approx (Fin 0) (Fin 20)"
  by (simp_all add: pixel_distance_def event_45_90w_def event_36_90w_def dsub_def dmul_def ddiv_def
      zero_of_def rnd_values rnd_54 rnd_3_10 rnd_y120 rnd_5 rnd_m15 rnd_40 rnd_20)

lemma sample_distance_order:
  assumes "hypot_accurate approx"
  shows "dlt (Math_hypot approx (Fin 0) (Fin 5)) (Fin 18)"
    and "dlt (Math_hypot approx (Fin 0) (Fin 5)) (Math_hypot approx (Fin 0) (Fin (- 15)))"
    and "\<not> dlt (Math_hypot approx (Fin 0) (Fin 40)) (Fin 18)"
    and "\<not> dlt (Math_hypot approx (Fin 0) (Fin 20)) (Fin 18)"
proof -
  show "dlt (Math_hypot approx (Fin 0) (Fin 5)) (Fin 18)"
    by (rule hypot_below [OF assms, where r = 5]) simp_all
  show "\<not> dlt (Math_hypot approx (Fin 0) (Fin 40)) (Fin 18)"
    by (rule hypot_not_below [OF assms, where r = 40]) simp_all
  show "\<not> dlt (Math_hypot approx (Fin 0) (Fin 20)) (Fin 18)"
    by (rule hypot_not_below [OF assms, where r = 20]) simp_all
  obtain m where m: "Math_hypot approx (Fin 0) (Fin 5) = Fin m" "m \<le> 5 * (1 + 2 powi (- 50))"
    using Math_hypot_near [OF assms, where x = 0 and y = 5 and r = 5] by auto
  obtain n where n: "Math_hypot approx (Fin 0) (Fin (- 15)) = Fin n" "15 * (1 - 2 powi (- 50)) \<le> n"
    using Math_hypot_near [OF assms, where x = 0 and y = "- 15" and r = 15] by auto
  have "5 * (1 + 2 powi (- 50)) < (15::rat) * (1 - 2 powi (- 50))"
    by simp
  with m(2) n(2) have "m < n"
    by linarith
  then show "dlt (Math_hypot approx (Fin 0) (Fin 5)) (Math_hypot approx (Fin 0) (Fin (- 15)))"
    by (simp add: m(1) n(1))
qed

theorem findNearestEvent_nearest_witness:
  "findNearestEvent hypot_sample (Fin 100) (Fin 105) [event_36_90w, event_45_90w]
       (Fin 400) (Fin 400) (Fin 18) = Some event_45_90w
   \<and> dlt (pixel_distance hypot_sample (Fin 100) (Fin 105) (Fin 400) (Fin 400) event_45_90w) (Fin 18)
   \<and> dlt (pixel_distance hypot_sample (Fin 100) (Fin 105) (Fin 400) (Fin 400) event_45_90w)
         (pixel_distance hypot_sample (Fin 100) (Fin 105) (Fin 400) (Fin 400) event_36_90w)
   \<and> findNearestEvent hypot_sample (Fin 100) (Fin 140) [event_36_90w, event_45_90w]
       (Fin 400) (Fin 400) (Fin 18) = None
   \<and> findNearestEvent hypot_sample (Fin 100) (Fin 105) ([] :: latlon list)
       (Fin 400) (Fin 400) (Fin 18) = None
   \<and> lonToX (lon event_45_90w) (Fin 400) = Fin 100
   \<and> latToY (lat event_45_90w) (Fin 400) = Fin 100
   \<and> findNearestEvent hypot_sample (Fin 101) (Fin 100) [event_45_90w] (Fin 400) (Fin 400) (Fin 18)
       = Some event_45_90w
   \<and> findNearestEvent hypot_sample (Fin 130) (Fin 100) [event_45_90w] (Fin 400) (Fin 400) (Fin 18)
       = None
   \<and> findNearestEvent hypot_sample (Fin 100) (Fin 130) [event_45_90w] (Fin 400) (Fin 400) (Fin 18)
       = None
   \<and> findNearestEvent hypot_sample (Fin 103) (Fin 104) [event_45_90w] (Fin 400) (Fin 400) (Fin 18)
       = Some event_45_90w
   \<and> findNearestEvent hypot_sample (Fin 112) (Fin 116) [event_45_90w] (Fin 400) (Fin 400) (Fin 18)
       = None
   \<and> findNearestEvent hypot_sample (Fin 352) (Fin 180) [event_0_5e] (Fin 720) (Fin 360) (Fin 18)
       = Some event_0_5e"
proof -
  note acc = hypot_sample_accurate
  note d = sample_distance_order [OF acc]
  note p = sample_pixel_distances [where approx = hypot_sample]
  note near = findNearestEvent_nearest [where approx = hypot_sample and mx = "Fin 100"
      and my = "Fin 105" and es = "[event_36_90w, event_45_90w]" and w = "Fin 400"
      and h = "Fin 400" and maxDist = "Fin 18"]
  note far = findNearestEvent_nearest [where approx = hypot_sample and mx = "Fin 100"
      and my = "Fin 140" and es = "[event_36_90w, event_45_90w]" and w = "Fin 400"
      and h = "Fin 400" and maxDist = "Fin 18"]
  have "findNearestEvent hypot_sample (Fin 100) (Fin 105) [event_36_90w, event_45_90w]
       (Fin 400) (Fin 400) (Fin 18) \<noteq> None"
    using near [THEN conjunct2, THEN conjunct1] d(1) by (simp add: p)
  then obtain e where e: "findNearestEvent hypot_sample (Fin 100) (Fin 105)
       [event_36_90w, event_45_90w] (Fin 400) (Fin 400) (Fin 18) = Some e"
    by auto
  from near [THEN conjunct1, rule_format, OF e]
  have "e = event_36_90w \<or> e = event_45_90w"
    and "\<not> dlt (pixel_distance hypot_sample (Fin 100) (Fin 105) (Fin 400) (Fin 400) event_45_90w)
              (pixel_distance hypot_sample (Fin 100) (Fin 105) (Fin 400) (Fin 400) e)"
    by simp_all
  with d(2) have "e = event_45_90w"
    by (auto simp: p)
  with e have w1: "findNearestEvent hypot_sample (Fin 100) (Fin 105) [event_36_90w, event_45_90w]
       (Fin 400) (Fin 400) (Fin 18) = Some event_45_90w"
    by simp
  have w2: "findNearestEvent hypot_sample (Fin 100) (Fin 140) [event_36_90w, event_45_90w]
       (Fin 400) (Fin 400) (Fin 18) = None"
    using far [THEN conjunct2, THEN conjunct1] d(3,4) by (simp add: p)
  have w3: "findNearestEvent hypot_sample (Fin 100) (Fin 105) ([] :: latlon list)
       (Fin 400) (Fin 400) (Fin 18) = None"
    using findNearestEvent_nearest [where approx = hypot_sample and mx = "Fin 100"
      and my = "Fin 105" and es = "[] :: latlon list" and w = "Fin 400"
      and h = "Fin 400" and maxDist = "Fin 18"] by simp
  note ex = near [THEN conjunct2, THEN conjunct2, THEN conjunct2, rule_format, OF acc,
      THEN conjunct2]
  from w1 w2 w3 d(1,2) ex show ?thesis
    by (simp add: p)
qed

end
